theory Spec2Isabelle
  imports Complex_Main
begin

section \<open>Numbers, errors and text\<close>

text \<open>
  The program computes on pandas/NumPy \<open>float64\<close> values. A float is modelled as an exact
  rational or one of the IEEE special values; \<open>Fin 0\<close> is the zero with positive sign,
  \<open>NZero\<close> the zero with negative sign. \<open>NaN\<close> is pandas' marker for an absent or undefined
  cell. The operations \<open>fadd\<close>, \<open>fsub\<close>, \<open>fmul\<close> and \<open>fdiv\<close> give the exact result with the IEEE
  rules for zeros, infinities and NaN; \<open>fl\<close> rounds an exact result to binary64.
\<close>

datatype fval = Fin rat | NZero | PInf | NInf | NaN

datatype pyerror = ValueError | OverflowError | TypeError | FetchFailure string

text \<open>The sign bit of a float, and its value when it is finite.\<close>

fun negative :: "fval \<Rightarrow> bool" where
  "negative (Fin a) = (a < 0)"
| "negative NZero = True"
| "negative PInf = False"
| "negative NInf = True"
| "negative NaN = False"

fun finite_value :: "fval \<Rightarrow> rat option" where
  "finite_value (Fin a) = Some a"
| "finite_value NZero = Some 0"
| "finite_value PInf = None"
| "finite_value NInf = None"
| "finite_value NaN = None"

definition signed_zero :: "bool \<Rightarrow> fval" where
  "signed_zero neg = (if neg then NZero else Fin 0)"

definition signed_inf :: "bool \<Rightarrow> fval" where
  "signed_inf neg = (if neg then NInf else PInf)"

text \<open>IEEE arithmetic, as NumPy applies it elementwise: no operation raises; a zero result
  has the sign that IEEE 754 gives it.\<close>

fun fneg :: "fval \<Rightarrow> fval" where
  "fneg (Fin a) = (if a = 0 then NZero else Fin (- a))"
| "fneg NZero = Fin 0"
| "fneg PInf = NInf"
| "fneg NInf = PInf"
| "fneg NaN = NaN"

fun fabs :: "fval \<Rightarrow> fval" where
  "fabs (Fin a) = Fin \<bar>a\<bar>"
| "fabs NZero = Fin 0"
| "fabs PInf = PInf"
| "fabs NInf = PInf"
| "fabs NaN = NaN"

definition fadd :: "fval \<Rightarrow> fval \<Rightarrow> fval" where
  "fadd x y =
     (if x = NaN \<or> y = NaN then NaN
      else case (finite_value x, finite_value y) of
             (Some a, Some b) \<Rightarrow>
               if a + b = 0 then signed_zero (x = NZero \<and> y = NZero) else Fin (a + b)
           | (Some a, None) \<Rightarrow> y
           | (None, Some b) \<Rightarrow> x
           | (None, None) \<Rightarrow> if x = y then x else NaN)"

definition fsub :: "fval \<Rightarrow> fval \<Rightarrow> fval" where
  "fsub x y = fadd x (fneg y)"

definition fmul :: "fval \<Rightarrow> fval \<Rightarrow> fval" where
  "fmul x y =
     (if x = NaN \<or> y = NaN then NaN
      else case (finite_value x, finite_value y) of
             (Some a, Some b) \<Rightarrow>
               if a * b = 0 then signed_zero (negative x \<noteq> negative y) else Fin (a * b)
           | (Some a, None) \<Rightarrow> if a = 0 then NaN else signed_inf (negative x \<noteq> negative y)
           | (None, Some b) \<Rightarrow> if b = 0 then NaN else signed_inf (negative x \<noteq> negative y)
           | (None, None) \<Rightarrow> signed_inf (negative x \<noteq> negative y))"

definition fdiv :: "fval \<Rightarrow> fval \<Rightarrow> fval" where
  "fdiv x y =
     (if x = NaN \<or> y = NaN then NaN
      else case (finite_value x, finite_value y) of
             (Some a, Some b) \<Rightarrow>
               if b = 0 then (if a = 0 then NaN else signed_inf (negative x \<noteq> negative y))
               else if a = 0 then signed_zero (negative x \<noteq> negative y)
               else Fin (a / b)
           | (Some a, None) \<Rightarrow> signed_zero (negative x \<noteq> negative y)
           | (None, Some b) \<Rightarrow> signed_inf (negative x \<noteq> negative y)
           | (None, None) \<Rightarrow> NaN)"

text \<open>
  Rounding to a whole number as NumPy's \<open>round\<close> and Python's \<open>.0f\<close> format do it: to the
  nearest integer, a tie going to the even neighbour.
\<close>

definition round_half_even :: "rat \<Rightarrow> int" where
  "round_half_even r =
     (let f = \<lfloor>r\<rfloor>; d = r - of_int f
      in if d < 1 / 2 then f
         else if 1 / 2 < d then f + 1
         else if even f then f else f + 1)"

text \<open>
  The result of a float64 operation is the exact result rounded to the nearest binary64
  number, a tie going to the even significand; a result of magnitude \<open>2^1024\<close> or more after
  rounding is infinite, and one that rounds to nothing is a zero with the sign of the exact
  result. \<open>bit_length\<close> is the number of binary digits of a positive integer, \<open>pow2 e\<close> is
  \<open>2^e\<close>, and \<open>ilog2\<close> is the exponent of the power of two at or below a positive rational.
\<close>

function bit_length :: "int \<Rightarrow> int" where
  "bit_length n = (if n \<le> 0 then 0 else 1 + bit_length (n div 2))"
  by pat_completeness auto
termination
  by (relation "measure nat") auto

declare bit_length.simps [simp del]

text \<open>Powers of two with an integer exponent, by repeated squaring.\<close>

function pow2_nonneg :: "int \<Rightarrow> rat" where
  "pow2_nonneg e =
     (if e \<le> 0 then 1
      else let h = pow2_nonneg (e div 2) in if even e then h * h else 2 * h * h)"
  by pat_completeness auto
termination
  by (relation "measure nat") auto

declare pow2_nonneg.simps [simp del]

definition pow2 :: "int \<Rightarrow> rat" where
  "pow2 e = (if 0 \<le> e then pow2_nonneg e else 1 / pow2_nonneg (- e))"

definition ilog2 :: "rat \<Rightarrow> int" where
  "ilog2 x =
     (let e = bit_length (fst (quotient_of x)) - bit_length (snd (quotient_of x))
      in if x < pow2 e then e - 1 else e)"

definition round64 :: "rat \<Rightarrow> fval" where
  "round64 x =
     (if x = 0 then Fin 0
      else
        let a = \<bar>x\<bar>;
            e = max (ilog2 a) (- 1022);
            q = pow2 (e - 52);
            m = round_half_even (a / q)
        in if 1024 \<le> e \<or> (e = 1023 \<and> m = 2 ^ 53) then signed_inf (x < 0)
           else if m = 0 then signed_zero (x < 0)
           else Fin ((if x < 0 then - 1 else 1) * of_int m * q))"

fun fl :: "fval \<Rightarrow> fval" where
  "fl (Fin x) = round64 x"
| "fl v = v"

text \<open>The float64 operations \<open>-\<close>, \<open>*\<close> and \<open>/\<close> of NumPy and of Python.\<close>

definition f64_sub :: "fval \<Rightarrow> fval \<Rightarrow> fval" where
  "f64_sub x y = fl (fsub x y)"

definition f64_mul :: "fval \<Rightarrow> fval \<Rightarrow> fval" where
  "f64_mul x y = fl (fmul x y)"

definition f64_div :: "fval \<Rightarrow> fval \<Rightarrow> fval" where
  "f64_div x y = fl (fdiv x y)"

text \<open>Python's \<open>int(x)\<close> on a finite float: the fractional part is dropped (towards zero).\<close>

definition trunc :: "rat \<Rightarrow> int" where
  "trunc r = (if r < 0 then \<lceil>r\<rceil> else \<lfloor>r\<rfloor>)"

definition py_int :: "fval \<Rightarrow> pyerror + int" where
  "py_int v = (case v of
       Fin r \<Rightarrow> Inr (trunc r)
     | NZero \<Rightarrow> Inr 0
     | NaN \<Rightarrow> Inl ValueError
     | PInf \<Rightarrow> Inl OverflowError
     | NInf \<Rightarrow> Inl OverflowError)"

text \<open>Decimal text of a natural number and of an integer, as \<open>str\<close> gives it.\<close>

definition digit_char :: "nat \<Rightarrow> char" where
  "digit_char d = ''0123456789'' ! d"

fun str_nat :: "nat \<Rightarrow> string" where
  "str_nat n = (if n < 10 then [digit_char n] else str_nat (n div 10) @ [digit_char (n mod 10)])"

declare str_nat.simps [simp del]

definition str_int :: "int \<Rightarrow> string" where
  "str_int i = (if i < 0 then ''-'' @ str_nat (nat (- i)) else str_nat (nat i))"

text \<open>
  The \<open>,\<close> option of Python's format specification: the digits of a non-negative integer with a
  comma before every complete group of three digits counted from the right. The helper works
  on the reversed digit string.
\<close>

fun insert_commas_rev :: "string \<Rightarrow> string" where
  "insert_commas_rev (a # b # c # d # ds) = a # b # c # CHR '','' # insert_commas_rev (d # ds)"
| "insert_commas_rev ds = ds"

definition fmt_comma :: "nat \<Rightarrow> string" where
  "fmt_comma n = rev (insert_commas_rev (rev (str_nat n)))"

text \<open>
  The \<open>.0f\<close> format of a finite float, without and with the \<open>+\<close> flag: the sign of the value,
  then its magnitude rounded to a whole number. A negative value that rounds to zero keeps
  its minus sign, as in Python.
\<close>

definition fmt_0f :: "rat \<Rightarrow> string" where
  "fmt_0f r = (if r < 0 then ''-'' else '''') @ str_nat (nat (round_half_even \<bar>r\<bar>))"

definition fmt_plus_0f :: "rat \<Rightarrow> string" where
  "fmt_plus_0f r = (if r < 0 then ''-'' else ''+'') @ str_nat (nat (round_half_even \<bar>r\<bar>))"

text \<open>The \<open>.0f\<close> format of any float.\<close>

fun fmt_0f_float :: "fval \<Rightarrow> string" where
  "fmt_0f_float (Fin r) = fmt_0f r"
| "fmt_0f_float NZero = ''-0''"
| "fmt_0f_float PInf = ''inf''"
| "fmt_0f_float NInf = ''-inf''"
| "fmt_0f_float NaN = ''nan''"

section \<open>Statement normalizer (\<open>fetch_financials\<close> in Stock\_Research\_Analysis.py)\<close>

text \<open>A data-frame cell: a number, a text, or an \<open>html.Span\<close> with its text and colour.\<close>

datatype cell = Num fval | Str string | Span string string

text \<open>\<open>format_number\<close>: a numeric cell becomes text, any other cell is returned as it is.\<close>

fun format_number :: "cell \<Rightarrow> pyerror + cell" where
  "format_number (Num v) =
     (case py_int v of
        Inl e \<Rightarrow> Inl e
      | Inr i \<Rightarrow>
          if i < 0 then Inr (Str (''('' @ fmt_comma (nat \<bar>i\<bar>) @ '')''))
          else Inr (Str (fmt_comma (nat i))))"
| "format_number c = Inr c"


text \<open>
  A data frame is its list of columns, each a label with one cell per row. The period columns
  of a statement are labelled by time stamps, the columns the program adds by text; a time
  stamp never equals a text label. The labels of a frame are taken to be distinct, as the
  period end dates of a statement are.
\<close>

datatype label = Stamp string | Name string

fun label_text :: "label \<Rightarrow> string" where
  "label_text (Stamp t) = t"
| "label_text (Name s) = s"

type_synonym frame = "(label \<times> cell list) list"

text \<open>
  A raw statement as the data source delivers it: the line items (row labels) and the period
  columns, newest first, each with one value per line item.
\<close>

record raw_statement =
  line_items :: "string list"
  periods :: "(string \<times> fval list) list"

definition reset_index :: "raw_statement \<Rightarrow> frame" where
  "reset_index raw =
     (Name ''index'', map Str (line_items raw))
       # map (\<lambda>(p, vs). (Stamp p, map Num vs)) (periods raw)"

text \<open>\<open>df[col]\<close> and \<open>df[col] = values\<close>: an existing column is replaced in place, a new one is
  appended on the right.\<close>

definition get_column :: "frame \<Rightarrow> label \<Rightarrow> cell list" where
  "get_column df col = (case map_of df col of Some vs \<Rightarrow> vs | None \<Rightarrow> [])"

fun set_column :: "frame \<Rightarrow> label \<Rightarrow> cell list \<Rightarrow> frame" where
  "set_column [] col vs = [(col, vs)]"
| "set_column ((k, old) # cols) col vs =
     (if k = col then (k, vs) # cols else (k, old) # set_column cols col vs)"

text \<open>\<open>df.fillna(0)\<close> and \<open>pd.to_numeric(..., errors='coerce')\<close>; the latter is the identity
  on the float cells of a period column and turns anything else into NaN.\<close>

fun fillna0 :: "fval \<Rightarrow> fval" where
  "fillna0 NaN = Fin 0"
| "fillna0 v = v"

fun fillna0_cell :: "cell \<Rightarrow> cell" where
  "fillna0_cell (Num v) = Num (fillna0 v)"
| "fillna0_cell c = c"

fun cell_num :: "cell \<Rightarrow> fval" where
  "cell_num (Num v) = v"
| "cell_num _ = NaN"

definition to_numeric :: "label list \<Rightarrow> frame \<Rightarrow> frame" where
  "to_numeric cols df =
     foldl (\<lambda>d col. set_column d col (map (\<lambda>c. Num (cell_num c)) (get_column d col))) df cols"

text \<open>
  The percentage change of one cell (lines 47--49):
  \<open>((cur - prev) / abs(prev).replace(0, inf) * 100).fillna(0).round(0)\<close>.
\<close>

fun replace_zero_inf :: "fval \<Rightarrow> fval" where
  "replace_zero_inf (Fin a) = (if a = 0 then PInf else Fin a)"
| "replace_zero_inf NZero = PInf"
| "replace_zero_inf v = v"

text \<open>\<open>round(0)\<close> keeps the sign of a value that rounds to zero.\<close>

fun fround0 :: "fval \<Rightarrow> fval" where
  "fround0 (Fin a) =
     (if round_half_even a = 0 then signed_zero (a < 0) else Fin (of_int (round_half_even a)))"
| "fround0 v = v"

definition pct_change :: "fval \<Rightarrow> fval \<Rightarrow> fval" where
  "pct_change cur prev =
     fround0 (fillna0
       (f64_mul (f64_div (f64_sub cur prev) (replace_zero_inf (fabs prev))) (Fin 100)))"

definition pct_column :: "frame \<Rightarrow> label \<Rightarrow> label \<Rightarrow> cell list" where
  "pct_column df current_col previous_col =
     map2 (\<lambda>c p. Num (pct_change (cell_num c) (cell_num p)))
       (get_column df current_col) (get_column df previous_col)"

text \<open>The loop of lines 43--51, \<open>for i in range(1, len(numeric_columns) - 1)\<close>. Arithmetic on
  float columns does not raise, so the handler of line 50 is never entered.\<close>

definition pct_label :: "label \<Rightarrow> label" where
  "pct_label current_col = Name (label_text current_col @ ''-%'')"

definition add_pct_columns :: "label list \<Rightarrow> frame \<Rightarrow> frame" where
  "add_pct_columns numeric_columns df =
     foldl (\<lambda>d i. set_column d (pct_label (numeric_columns ! i))
                     (pct_column d (numeric_columns ! i) (numeric_columns ! (i + 1))))
       df [1..<length numeric_columns - 1]"

text \<open>Lines 62--63: \<open>format_number\<close> over every period column; the first cell that raises
  ends the whole computation.\<close>

fun map_result :: "('a \<Rightarrow> pyerror + 'b) \<Rightarrow> 'a list \<Rightarrow> pyerror + 'b list" where
  "map_result f [] = Inr []"
| "map_result f (x # xs) =
     (case f x of
        Inl e \<Rightarrow> Inl e
      | Inr y \<Rightarrow> (case map_result f xs of Inl e \<Rightarrow> Inl e | Inr ys \<Rightarrow> Inr (y # ys)))"

fun format_columns :: "label list \<Rightarrow> frame \<Rightarrow> pyerror + frame" where
  "format_columns [] df = Inr df"
| "format_columns (col # cols) df =
     (case map_result format_number (get_column df col) of
        Inl e \<Rightarrow> Inl e
      | Inr vs \<Rightarrow> format_columns cols (set_column df col vs))"

text \<open>Lines 66--71: every column whose label contains \<open>%\<close> is rendered with a sign and a
  colour; a cell that is not a number, or is NaN, becomes the plain text \<open>0 %\<close>. The
  \<open>+\<close> flag prints the sign bit, so a negative zero reads \<open>-0\<close>; it is neither above nor
  below 0, so its colour is white.\<close>

fun style_pct :: "cell \<Rightarrow> cell" where
  "style_pct (Num (Fin x)) =
     Span (fmt_plus_0f x @ '' %'')
          (if 0 < x then ''green'' else if x < 0 then ''red'' else ''white'')"
| "style_pct (Num NZero) = Span ''-0 %'' ''white''"
| "style_pct (Num PInf) = Span ''+inf %'' ''green''"
| "style_pct (Num NInf) = Span ''-inf %'' ''red''"
| "style_pct _ = Str ''0 %''"

definition filter_like_pct :: "frame \<Rightarrow> label list" where
  "filter_like_pct df = filter (\<lambda>l. CHR ''%'' \<in> set (label_text l)) (map fst df)"

definition style_pct_columns :: "frame \<Rightarrow> frame" where
  "style_pct_columns df =
     foldl (\<lambda>d col. set_column d col (map style_pct (get_column d col))) df (filter_like_pct df)"

text \<open>Line 73, \<open>df.iloc[::-1]\<close>: the rows in reverse order.\<close>

definition reverse_rows :: "frame \<Rightarrow> frame" where
  "reverse_rows df = map (\<lambda>(l, vs). (l, rev vs)) df"

text \<open>The body of the loop over the statements (lines 31--75) for one statement; an absent
  statement gives the empty frame.\<close>

definition normalize_statement :: "raw_statement option \<Rightarrow> pyerror + frame" where
  "normalize_statement statement =
     (case statement of
        None \<Rightarrow> Inr []
      | Some raw \<Rightarrow>
          (let df = map (\<lambda>(l, vs). (l, map fillna0_cell vs)) (reset_index raw);
               numeric_columns = map fst (tl df);
               df = to_numeric numeric_columns df;
               df = add_pct_columns numeric_columns df
           in case format_columns numeric_columns df of
                Inl e \<Rightarrow> Inl e
              | Inr df \<Rightarrow> Inr (reverse_rows (style_pct_columns df))))"

text \<open>The value columns of a display statement are all its columns but the line-item column.\<close>

definition value_columns :: "frame \<Rightarrow> label list" where
  "value_columns df = tl (map fst df)"


section \<open>KPI extractor (\<open>kpi_data\<close> in \<open>fetch_financials\<close>)\<close>

text \<open>
  A value of the attribute map \<open>stock.info\<close>: \<open>None\<close>, a finite float, or a non-empty
  dictionary or list (the data source delivers such values under some keys). Text values are
  left out of the model, and a Python \<open>int\<close> is not told apart from the float of the same
  value. A key may also be missing from the map.
\<close>

datatype pyval = PNone | PNum rat | PDict

type_synonym info = "string \<rightharpoonup> pyval"

text \<open>\<open>info.get(key)\<close> and \<open>info.get(key, 0)\<close>.\<close>

definition info_get :: "info \<Rightarrow> string \<Rightarrow> pyval" where
  "info_get i key = (case i key of None \<Rightarrow> PNone | Some v \<Rightarrow> v)"

definition info_get0 :: "info \<Rightarrow> string \<Rightarrow> pyval" where
  "info_get0 i key = (case i key of None \<Rightarrow> PNum 0 | Some v \<Rightarrow> v)"

text \<open>The three shapes of a value expression in lines 86--95:
  \<open>f"{info.get(k, 0) * 100:.0f} %"\<close>, \<open>f"{int(info.get(k, 0))}"\<close> and
  \<open>f"{info.get(k, 0):.0f}"\<close>, each guarded by \<open>info.get(k) is not None\<close>.\<close>

definition percent_value :: "info \<Rightarrow> string \<Rightarrow> pyerror + string" where
  "percent_value i key =
     (if info_get i key \<noteq> PNone then
        (case info_get0 i key of
           PNum r \<Rightarrow> Inr (fmt_0f_float (f64_mul (Fin r) (Fin 100)) @ '' %'')
         | _ \<Rightarrow> Inl TypeError)
      else Inr ''N/A'')"

definition int_value :: "info \<Rightarrow> string \<Rightarrow> pyerror + string" where
  "int_value i key =
     (if info_get i key \<noteq> PNone then
        (case info_get0 i key of
           PNum r \<Rightarrow> Inr (str_int (trunc r))
         | _ \<Rightarrow> Inl TypeError)
      else Inr ''N/A'')"

definition float0_value :: "info \<Rightarrow> string \<Rightarrow> pyerror + string" where
  "float0_value i key =
     (if info_get i key \<noteq> PNone then
        (case info_get0 i key of
           PNum r \<Rightarrow> Inr (fmt_0f r)
         | _ \<Rightarrow> Inl TypeError)
      else Inr ''N/A'')"

definition kpi_metrics :: "string list" where
  "kpi_metrics =
     [''Return on Equity'', ''Debt to Equity'', ''Current Ratio'', ''Gross Margins'',
      ''Operating Margins'', ''Profit Margins'', ''EBITDA Margins'', ''Quick Ratio'',
      ''Payout Ratio'', ''Beta'']"

definition kpi_values :: "info \<Rightarrow> (pyerror + string) list" where
  "kpi_values i =
     [percent_value i ''returnOnEquity'',
      int_value i ''debtToEquity'',
      int_value i ''currentRatio'',
      percent_value i ''grossMargins'',
      percent_value i ''operatingMargins'',
      percent_value i ''profitMargins'',
      percent_value i ''ebitdaMargins'',
      int_value i ''quickRatio'',
      percent_value i ''payoutRatio'',
      float0_value i ''beta'']"

text \<open>The list display evaluates its entries in order; the first one that raises ends the
  construction. The result pairs each metric with its value, as the rows of \<open>kpi_df\<close>.\<close>

definition kpi_data :: "info \<Rightarrow> pyerror + (string \<times> string) list" where
  "kpi_data i =
     (case map_result (\<lambda>v. v) (kpi_values i) of
        Inl e \<Rightarrow> Inl e
      | Inr vs \<Rightarrow> Inr (zip kpi_metrics vs))"

section \<open>Indicator engine (\<open>calculate_rsi\<close> in proto.py)\<close>

text \<open>
  A close-price series is a list of finite prices. \<open>None\<close> stands for NaN where a series of
  finite numbers may have undefined positions. The gains, the losses and their rolling means
  are kept as rationals: in pandas a zero loss may carry the negative sign, which turns the
  quotient \<open>gain / loss\<close> from \<open>inf\<close> into \<open>-inf\<close> and leaves the resulting RSI the same.
\<close>

definition diff :: "rat list \<Rightarrow> rat option list" where
  "diff data =
     (if data = [] then [] else None # map2 (\<lambda>prev x. Some (x - prev)) data (tl data))"

text \<open>\<open>delta.where(delta > 0, 0)\<close> and \<open>-delta.where(delta < 0, 0)\<close>: a comparison with NaN is
  false, so the undefined first difference becomes 0.\<close>

definition gain_series :: "rat option list \<Rightarrow> rat list" where
  "gain_series delta =
     map (\<lambda>d. case d of Some x \<Rightarrow> if 0 < x then x else 0 | None \<Rightarrow> 0) delta"

definition loss_series :: "rat option list \<Rightarrow> rat list" where
  "loss_series delta =
     map (\<lambda>d. - (case d of Some x \<Rightarrow> if x < 0 then x else 0 | None \<Rightarrow> 0)) delta"

text \<open>\<open>rolling(window).mean()\<close>: the mean of the last \<open>window\<close> values, undefined while fewer
  than \<open>window\<close> values are available (and for a window of 0).\<close>

definition rolling_mean :: "nat \<Rightarrow> rat list \<Rightarrow> rat option list" where
  "rolling_mean window xs =
     map (\<lambda>i. if 0 < window \<and> window \<le> i + 1
               then Some (sum_list (take window (drop (i + 1 - window) xs)) / of_nat window)
               else None)
       [0..<length xs]"

fun of_option :: "rat option \<Rightarrow> fval" where
  "of_option None = NaN"
| "of_option (Some x) = Fin x"

definition calculate_rsi :: "rat list \<Rightarrow> nat \<Rightarrow> fval list" where
  "calculate_rsi data window =
     (let delta = diff data;
          gain = rolling_mean window (gain_series delta);
          loss = rolling_mean window (loss_series delta);
          rs = map2 (\<lambda>g l. fdiv (of_option g) (of_option l)) gain loss;
          rsi = map (\<lambda>r. fsub (Fin 100) (fdiv (Fin 100) (fadd (Fin 1) r))) rs
      in rsi)"

section \<open>Watchlist aggregator\<close>

text \<open>
  What the data source returns for one ticker: the attribute map and the close prices of the
  requested history. A failed request is an error value.
\<close>

record snapshot =
  snap_info :: info
  snap_close :: "rat list"

type_synonym source = "string \<Rightarrow> pyerror + snapshot"

subsection \<open>\<open>get_stock_data\<close> in watchlist\_cardview\_v1.py\<close>

text \<open>A field of a row is a value of the attribute map or the text \<open>N/A\<close>.\<close>

datatype field = Val pyval | NA

text \<open>\<open>float(x)\<close>, and the truth value of an attribute.\<close>

fun py_float :: "pyval \<Rightarrow> pyerror + rat" where
  "py_float (PNum r) = Inr r"
| "py_float _ = Inl TypeError"

fun truthy :: "pyval \<Rightarrow> bool" where
  "truthy PNone = False"
| "truthy (PNum r) = (r \<noteq> 0)"
| "truthy PDict = True"

text \<open>A row is the normal variant or the error variant; of the normal variant the model
  keeps the ticker, the quote fields computed from the attributes and the close prices (the
  remaining entries copy attributes into the row and cannot raise).\<close>

datatype card_row =
  Card string field field field "rat list"
| CardError string pyerror

fun card_ticker :: "card_row \<Rightarrow> string" where
  "card_ticker (Card t _ _ _ _) = t"
| "card_ticker (CardError t _) = t"

text \<open>The body of the \<open>try\<close> block for one ticker, given what the data source returned.\<close>

definition card_row_of :: "string \<Rightarrow> snapshot \<Rightarrow> pyerror + card_row" where
  "card_row_of ticker snap =
     (let current_price = info_get (snap_info snap) ''currentPrice'';
          previous_close = info_get (snap_info snap) ''previousClose''
      in case (if current_price \<noteq> PNone \<and> previous_close \<noteq> PNone
               then (case py_float current_price of
                       Inl e \<Rightarrow> Inl e
                     | Inr c \<Rightarrow> (case py_float previous_close of
                                   Inl e \<Rightarrow> Inl e
                                 | Inr p \<Rightarrow> Inr (Val (PNum (c - p)))))
               else Inr NA) of
           Inl e \<Rightarrow> Inl e
         | Inr price_change \<Rightarrow>
             Inr (Card ticker
                    (if truthy current_price then Val current_price else NA)
                    price_change
                    (if truthy previous_close then Val previous_close else NA)
                    (snap_close snap)))"

text \<open>One iteration of the loop of \<open>get_stock_data\<close>: the fetch and the body run under
  \<open>try\<close>, and the handler appends the error variant with the ticker and the reason.\<close>

definition try_card_row :: "source \<Rightarrow> string \<Rightarrow> card_row" where
  "try_card_row fetch ticker =
     (case fetch ticker of
        Inl e \<Rightarrow> CardError ticker e
      | Inr snap \<Rightarrow>
          (case card_row_of ticker snap of
             Inl e \<Rightarrow> CardError ticker e
           | Inr row \<Rightarrow> row))"

fun get_stock_data :: "source \<Rightarrow> string list \<Rightarrow> card_row list" where
  "get_stock_data fetch [] = []"
| "get_stock_data fetch (ticker # tickers) =
     try_card_row fetch ticker # get_stock_data fetch tickers"

subsection \<open>\<open>update_table_and_dropdown\<close> in proto.py\<close>

text \<open>The RSI entry of a row, \<open>round(rsi, 2) if rsi else "N/A"\<close>, where \<open>rsi\<close> is \<open>None\<close> or a
  float: \<open>None\<close> and zero are false, every other float (NaN too) is true.\<close>

datatype rsi_field = RsiValue fval | RsiNA

definition round2 :: "rat \<Rightarrow> rat" where
  "round2 r = of_int (round_half_even (r * 100)) / 100"

fun round2_fval :: "fval \<Rightarrow> fval" where
  "round2_fval (Fin r) = Fin (round2 r)"
| "round2_fval v = v"

fun rsi_entry :: "fval option \<Rightarrow> rsi_field" where
  "rsi_entry None = RsiNA"
| "rsi_entry (Some (Fin r)) = (if r \<noteq> 0 then RsiValue (Fin (round2 r)) else RsiNA)"
| "rsi_entry (Some NZero) = RsiNA"
| "rsi_entry (Some v) = RsiValue (round2_fval v)"

text \<open>\<open>calculate_rsi(history['Close']).iloc[-1] if not history.empty else None\<close>.\<close>

definition latest_rsi :: "rat list \<Rightarrow> fval option" where
  "latest_rsi close = (if close \<noteq> [] then Some (last (calculate_rsi close 14)) else None)"

text \<open>Of a row the model keeps the ticker, the current price and the RSI entry. The entries
  \<open>round(info.get("currentPrice", 0), 2)\<close> and \<open>f"{info.get('volume', 0):,}"\<close> raise on a value
  that is not a number; the text of the volume is not kept. The other entries cannot raise.\<close>

record table_row =
  row_ticker :: string
  row_price :: rat
  row_rsi :: rsi_field

fun py_number :: "pyval \<Rightarrow> pyerror + rat" where
  "py_number (PNum r) = Inr r"
| "py_number _ = Inl TypeError"

definition table_row_of :: "string \<Rightarrow> snapshot \<Rightarrow> pyerror + table_row" where
  "table_row_of ticker snap =
     (let rsi = latest_rsi (snap_close snap)
      in case py_number (info_get0 (snap_info snap) ''currentPrice'') of
           Inl e \<Rightarrow> Inl e
         | Inr price \<Rightarrow>
             (case py_number (info_get0 (snap_info snap) ''volume'') of
                Inl e \<Rightarrow> Inl e
              | Inr volume \<Rightarrow>
                  Inr \<lparr>row_ticker = ticker, row_price = round2 price, row_rsi = rsi_entry rsi\<rparr>))"

text \<open>The loop of lines 192--217 runs without a handler: the first ticker that fails ends the
  call with its error, and no rows are returned.\<close>

fun update_table :: "source \<Rightarrow> string list \<Rightarrow> pyerror + table_row list" where
  "update_table fetch [] = Inr []"
| "update_table fetch (ticker # tickers) =
     (case fetch ticker of
        Inl e \<Rightarrow> Inl e
      | Inr snap \<Rightarrow>
          (case table_row_of ticker snap of
             Inl e \<Rightarrow> Inl e
           | Inr row \<Rightarrow>
               (case update_table fetch tickers of
                  Inl e \<Rightarrow> Inl e
                | Inr rows \<Rightarrow> Inr (row # rows))))"

section \<open>Auxiliary definitions for the statements\<close>

text \<open>The keys of the attribute map that the ten value expressions read, in the order of
  \<open>kpi_metrics\<close>.\<close>

definition kpi_keys :: "string list" where
  "kpi_keys =
     [''returnOnEquity'', ''debtToEquity'', ''currentRatio'', ''grossMargins'',
      ''operatingMargins'', ''profitMargins'', ''ebitdaMargins'', ''quickRatio'',
      ''payoutRatio'', ''beta'']"

text \<open>The last two lines of \<open>calculate_rsi\<close> at one position, from the two rolling means.\<close>

definition rsi_of :: "fval \<Rightarrow> fval \<Rightarrow> fval" where
  "rsi_of g l = fsub (Fin 100) (fdiv (Fin 100) (fadd (Fin 1) (fdiv g l)))"

text \<open>A data source that fails for the ticker \<open>BAD\<close> and answers every other ticker.\<close>

definition example_source :: source where
  "example_source ticker =
     (if ticker = ''BAD'' then Inl (FetchFailure ''no data'')
      else Inr \<lparr>snap_info = [''currentPrice'' \<mapsto> PNum 10, ''previousClose'' \<mapsto> PNum 9,
                              ''volume'' \<mapsto> PNum 1000],
                snap_close = [1, 2, 3]\<rparr>)"

text \<open>Two raw statements with the line items Revenue and Cost: one with four periods, one
  with two.\<close>

definition example_statement :: raw_statement where
  "example_statement =
     \<lparr>line_items = [''Revenue'', ''Cost''],
      periods = [(''2024'', [Fin 300, Fin (- 1234)]), (''2023'', [Fin 150, Fin (- 50)]),
                 (''2022'', [Fin 100, NaN]), (''2021'', [Fin 200, Fin (- 25)])]\<rparr>"

definition two_period_statement :: raw_statement where
  "two_period_statement =
     \<lparr>line_items = [''Revenue'', ''Cost''],
      periods = [(''2023'', [Fin 150, Fin (- 50)]), (''2022'', [Fin 100, NaN])]\<rparr>"

text \<open>A raw statement with three periods and the single line item Revenue.\<close>

definition three_period_statement :: raw_statement where
  "three_period_statement =
     \<lparr>line_items = [''Revenue''],
      periods = [(''2024'', [Fin 150]), (''2023'', [Fin 100]), (''2022'', [Fin 80])]\<rparr>"

text \<open>
  The rendering that the specification gives to a percentage-change cell of value \<open>v\<close>: the
  whole number with an explicit sign and \<open> %\<close>, green above zero, red below zero, white at
  zero.
\<close>

fun signed_percent :: "fval \<Rightarrow> cell \<Rightarrow> bool" where
  "signed_percent (Fin r) c =
     (r = of_int \<lfloor>r\<rfloor>
      \<and> c = Span ((if r < 0 then ''-'' else ''+'') @ str_nat (nat \<bar>\<lfloor>r\<rfloor>\<bar>) @ '' %'')
                  (if 0 < r then ''green'' else if r < 0 then ''red'' else ''white''))"
| "signed_percent NZero c = (c = Span ''-0 %'' ''white'')"
| "signed_percent PInf c = (c = Span ''+inf %'' ''green'')"
| "signed_percent NInf c = (c = Span ''-inf %'' ''red'')"
| "signed_percent NaN c = False"


section \<open>Arithmetic on finite floats\<close>

lemma fadd_Fin [simp]: "fadd (Fin a) (Fin b) = Fin (a + b)"
  unfolding fadd_def signed_zero_def by simp

lemma fsub_Fin [simp]: "fsub (Fin a) (Fin b) = Fin (a - b)"
  unfolding fsub_def fadd_def signed_zero_def by simp

lemma fdiv_Fin_pos: "0 < b \<Longrightarrow> fdiv (Fin a) (Fin b) = Fin (a / b)"
  unfolding fdiv_def signed_zero_def by simp

lemma fdiv_Fin_zero: "0 < a \<Longrightarrow> fdiv (Fin a) (Fin 0) = PInf"
  unfolding fdiv_def signed_inf_def by simp

lemma fdiv_zero_zero: "fdiv (Fin 0) (Fin 0) = NaN"
  unfolding fdiv_def by simp

lemma fdiv_Fin_PInf: "fdiv (Fin a) PInf = signed_zero (a < 0)"
  unfolding fdiv_def by simp

lemma fmul_Fin_pos: "0 < b \<Longrightarrow> fmul (Fin a) (Fin b) = Fin (a * b)"
  unfolding fmul_def signed_zero_def by simp

lemma fmul_signed_zero_pos: "0 < b \<Longrightarrow> fmul (signed_zero s) (Fin b) = signed_zero s"
  unfolding fmul_def signed_zero_def by simp

lemma fadd_NaN [simp]: "fadd NaN y = NaN" "fadd x NaN = NaN"
  unfolding fadd_def by simp_all

lemma fdiv_NaN [simp]: "fdiv NaN y = NaN" "fdiv x NaN = NaN"
  unfolding fdiv_def by simp_all

lemma fadd_Fin_PInf [simp]: "fadd (Fin a) PInf = PInf"
  unfolding fadd_def by simp

lemma fsub_Fin_NaN [simp]: "fsub (Fin a) NaN = NaN"
  unfolding fsub_def by simp



section \<open>Properties of the number formats\<close>


lemma trunc_magnitude: "\<bar>of_int (trunc r)\<bar> \<le> \<bar>r\<bar>"
proof (cases "r < 0")
  case True
  then have "\<lceil>r\<rceil> \<le> 0" by (simp add: ceiling_le_zero)
  moreover have "r \<le> of_int \<lceil>r\<rceil>" by (rule le_of_int_ceiling)
  ultimately show ?thesis using True unfolding trunc_def by simp
next
  case False
  then have "0 \<le> \<lfloor>r\<rfloor>" by simp
  moreover have "of_int \<lfloor>r\<rfloor> \<le> r" by (rule of_int_floor_le)
  ultimately show ?thesis using False unfolding trunc_def by simp
qed

lemma trunc_fraction: "\<bar>r - of_int (trunc r)\<bar> < 1"
proof (cases "r < 0")
  case True
  have "r \<le> of_int \<lceil>r\<rceil>" "of_int \<lceil>r\<rceil> < r + 1" by linarith+
  then show ?thesis using True unfolding trunc_def by simp
next
  case False
  have "of_int \<lfloor>r\<rfloor> \<le> r" "r < of_int \<lfloor>r\<rfloor> + 1" by linarith+
  then show ?thesis using False unfolding trunc_def by simp
qed

lemma trunc_of_int: "trunc (of_int k) = k"
  unfolding trunc_def by simp

lemma digit_char_in: "d < 10 \<Longrightarrow> digit_char d \<in> set ''0123456789''"
  unfolding digit_char_def by (rule nth_mem) simp

lemma str_nat_digits: "set (str_nat n) \<subseteq> set ''0123456789''"
proof (induction n rule: str_nat.induct)
  case (1 n)
  show ?case
  proof (cases "n < 10")
    case True
    then show ?thesis using digit_char_in [of n] by (subst str_nat.simps) simp
  next
    case False
    have "n mod 10 < 10" by simp
    then have "digit_char (n mod 10) \<in> set ''0123456789''" by (rule digit_char_in)
    with False 1 show ?thesis by (subst str_nat.simps) simp
  qed
qed

lemma str_nat_no_comma: "CHR '','' \<notin> set (str_nat n)"
  using str_nat_digits [of n] by auto

lemma str_nat_no_minus: "CHR ''-'' \<notin> set (str_nat n)"
  using str_nat_digits [of n] by auto

lemma insert_commas_rev_set: "set (insert_commas_rev ds) \<subseteq> insert (CHR '','') (set ds)"
  by (induction ds rule: insert_commas_rev.induct) auto

lemma insert_commas_rev_filter:
  "CHR '','' \<notin> set ds \<Longrightarrow> filter (\<lambda>c. c \<noteq> CHR '','') (insert_commas_rev ds) = ds"
  by (induction ds rule: insert_commas_rev.induct) auto

lemma insert_commas_rev_short: "length ds < 4 \<Longrightarrow> insert_commas_rev ds = ds"
  by (induction ds rule: insert_commas_rev.induct) simp_all

lemma four_or_more:
  assumes "\<not> length ds < 4"
  shows "\<exists>a b c d rest. ds = a # b # c # d # rest"
proof -
  have "Suc (Suc (Suc (Suc 0))) \<le> length ds" using assms by simp
  then show ?thesis unfolding Suc_le_length_iff by auto
qed

lemma insert_commas_rev_nth:
  "CHR '','' \<notin> set ds \<Longrightarrow> i < length (insert_commas_rev ds) \<Longrightarrow>
   (insert_commas_rev ds ! i = CHR '','') = (i mod 4 = 3)"
proof (induction "length ds" arbitrary: ds i rule: less_induct)
  case less
  show ?case
  proof (cases "length ds < 4")
    case True
    then have same: "insert_commas_rev ds = ds" by (rule insert_commas_rev_short)
    then have i: "i < length ds" using less.prems(2) by simp
    then have "ds ! i \<in> set ds" by (rule nth_mem)
    then have "ds ! i \<noteq> CHR '',''" using less.prems(1) by auto
    moreover have "i mod 4 \<noteq> 3" using i True by simp
    ultimately show ?thesis unfolding same by simp
  next
    case False
    then obtain a b c d rest where ds: "ds = a # b # c # d # rest"
      using four_or_more by blast
    show ?thesis
    proof (cases "i < 4")
      case True
      then consider "i = 0" | "i = 1" | "i = 2" | "i = 3" by linarith
      then show ?thesis using less.prems(1) unfolding ds by cases (simp_all, blast+)
    next
      case False
      then obtain j where j: "i = j + 4" by (metis add.commute le_Suc_ex not_less)
      have "length (d # rest) < length ds" unfolding ds by simp
      moreover have "CHR '','' \<notin> set (d # rest)" using less.prems(1) unfolding ds by simp
      moreover have "j < length (insert_commas_rev (d # rest))"
        using less.prems(2) unfolding ds j by simp
      ultimately have "(insert_commas_rev (d # rest) ! j = CHR '','') = (j mod 4 = 3)"
        by (rule less.hyps)
      moreover have "insert_commas_rev ds ! i = insert_commas_rev (d # rest) ! j"
        unfolding ds j by (simp add: numeral_eq_Suc)
      moreover have "i mod 4 = j mod 4" unfolding j by simp
      ultimately show ?thesis by simp
    qed
  qed
qed

lemma fmt_comma_filter: "filter (\<lambda>c. c \<noteq> CHR '','') (fmt_comma n) = str_nat n"
proof -
  have "CHR '','' \<notin> set (rev (str_nat n))" using str_nat_no_comma by simp
  then have "filter (\<lambda>c. c \<noteq> CHR '','') (insert_commas_rev (rev (str_nat n))) = rev (str_nat n)"
    by (rule insert_commas_rev_filter)
  then show ?thesis unfolding fmt_comma_def by (simp add: rev_filter [symmetric] del: rev_filter)
qed

lemma fmt_comma_nth:
  assumes "i < length (fmt_comma n)"
  shows "(fmt_comma n ! i = CHR '','') = ((length (fmt_comma n) - i) mod 4 = 0)"
proof -
  let ?r = "insert_commas_rev (rev (str_nat n))"
  have len: "length (fmt_comma n) = length ?r" unfolding fmt_comma_def by simp
  have i: "i < length ?r" using assms len by simp
  have nth: "fmt_comma n ! i = ?r ! (length ?r - Suc i)"
    unfolding fmt_comma_def using i by (simp add: rev_nth)
  have "CHR '','' \<notin> set (rev (str_nat n))" using str_nat_no_comma by simp
  moreover have "length ?r - Suc i < length ?r" using i by simp
  ultimately have "(?r ! (length ?r - Suc i) = CHR '','') = ((length ?r - Suc i) mod 4 = 3)"
    by (rule insert_commas_rev_nth)
  moreover have "((length ?r - Suc i) mod 4 = 3) = ((length ?r - i) mod 4 = 0)"
  proof -
    obtain k where k: "length ?r - i = Suc k" using i by (metis Suc_diff_Suc)
    then have "length ?r - Suc i = k" by simp
    then show ?thesis unfolding k by presburger
  qed
  ultimately show ?thesis using nth len by simp
qed

lemma fmt_comma_no_minus: "CHR ''-'' \<notin> set (fmt_comma n)"
proof -
  have "set (fmt_comma n) \<subseteq> insert (CHR '','') (set (str_nat n))"
    unfolding fmt_comma_def using insert_commas_rev_set [of "rev (str_nat n)"] by simp
  then show ?thesis using str_nat_no_minus [of n] by auto
qed


text \<open>
  C6, as amended. \<open>format_number\<close> on a finite numeric cell \<open>v\<close> first truncates \<open>v\<close> towards zero (the
  fractional part is dropped: the result is no larger in magnitude than \<open>v\<close> and less than 1
  away from it), then renders a truncated value that is not negative as its comma-grouped
  decimal text and a negative one as the comma-grouped magnitude in parentheses. The
  comma-grouped text of \<open>n\<close> is the decimal text of \<open>n\<close> once the commas are taken out, and its
  commas stand exactly at every fourth position counted from the right. The result contains no
  minus sign. In particular -1234 gives \<open>(1,234)\<close>, 1234 gives \<open>1,234\<close> and 0 (of either sign)
  gives \<open>0\<close>.
\<close>

theorem format_number_renders:
  "format_number (Num (Fin v)) =
     Inr (Str (if trunc v < 0 then ''('' @ fmt_comma (nat (- trunc v)) @ '')''
               else fmt_comma (nat (trunc v))))
   \<and> \<bar>of_int (trunc v)\<bar> \<le> \<bar>v\<bar> \<and> \<bar>v - of_int (trunc v)\<bar> < 1
   \<and> filter (\<lambda>c. c \<noteq> CHR '','') (fmt_comma n) = str_nat n
   \<and> (\<forall>i<length (fmt_comma n).
         (fmt_comma n ! i = CHR '','') = ((length (fmt_comma n) - i) mod 4 = 0))
   \<and> (\<forall>s. format_number (Num (Fin v)) = Inr (Str s) \<longrightarrow> CHR ''-'' \<notin> set s)
   \<and> format_number (Num (Fin (- 1234))) = Inr (Str ''(1,234)'')
   \<and> format_number (Num (Fin 1234)) = Inr (Str ''1,234'')
   \<and> format_number (Num (Fin 0)) = Inr (Str ''0'')
   \<and> format_number (Num NZero) = Inr (Str ''0'')"
proof -
  have render: "format_number (Num (Fin v)) =
     Inr (Str (if trunc v < 0 then ''('' @ fmt_comma (nat (- trunc v)) @ '')''
               else fmt_comma (nat (trunc v))))"
    by (simp add: py_int_def)
  have no_minus: "\<forall>s. format_number (Num (Fin v)) = Inr (Str s) \<longrightarrow> CHR ''-'' \<notin> set s"
    unfolding render using fmt_comma_no_minus by auto
  have commas: "\<forall>i<length (fmt_comma n).
         (fmt_comma n ! i = CHR '','') = ((length (fmt_comma n) - i) mod 4 = 0)"
    by (intro allI impI) (rule fmt_comma_nth)
  have e1: "format_number (Num (Fin (- 1234))) = Inr (Str ''(1,234)'')"
    by (simp add: py_int_def trunc_def fmt_comma_def str_nat.simps digit_char_def)
  have e2: "format_number (Num (Fin 1234)) = Inr (Str ''1,234'')"
    by (simp add: py_int_def trunc_def fmt_comma_def str_nat.simps digit_char_def)
  have e3: "format_number (Num (Fin 0)) = Inr (Str ''0'')"
    by (simp add: py_int_def trunc_def fmt_comma_def str_nat.simps digit_char_def)
  have e4: "format_number (Num NZero) = Inr (Str ''0'')"
    by (simp add: py_int_def fmt_comma_def str_nat.simps digit_char_def)
  show ?thesis
    by (intro conjI render trunc_magnitude trunc_fraction fmt_comma_filter commas no_minus
        e1 e2 e3 e4)
qed

theorem format_number_renders_witness:
  "2 < length (fmt_comma 12345678)
   \<and> fmt_comma 12345678 ! 2 = CHR '',''
   \<and> format_number (Num (Fin (- (123456789 / 10)))) = Inr (Str ''(12,345,678)'')
   \<and> CHR ''-'' \<notin> set ''(12,345,678)''"
proof -
  have a: "fmt_comma 12345678 = ''12,345,678''"
    by (simp add: fmt_comma_def str_nat.simps digit_char_def)
  have tr: "trunc (- (123456789 / 10)) = - 12345678" by code_simp
  have b: "format_number (Num (Fin (- (123456789 / 10)))) = Inr (Str ''(12,345,678)'')"
    by (simp add: py_int_def tr a)
  note t = format_number_renders [of "- (123456789 / 10)" 12345678]
  have "\<forall>i<length (fmt_comma 12345678).
         (fmt_comma 12345678 ! i = CHR '','') = ((length (fmt_comma 12345678) - i) mod 4 = 0)"
    using t by (elim conjE)
  then have c: "fmt_comma 12345678 ! 2 = CHR '',''" unfolding a by simp
  have "\<forall>s. format_number (Num (Fin (- (123456789 / 10)))) = Inr (Str s)
      \<longrightarrow> CHR ''-'' \<notin> set s"
    using t by (elim conjE)
  then have d: "CHR ''-'' \<notin> set ''(12,345,678)''" using b by blast
  show ?thesis using b c d unfolding a by simp
qed

text \<open>
  C6 as stated fails for a negative value above -1: -0.5 is below zero, and it is rendered as
  \<open>0\<close>, not in parentheses, because the sign is tested after the truncation.
\<close>

theorem negative_fraction_renders_zero:
  "format_number (Num (Fin (- (1 / 2)))) = Inr (Str ''0'') \<and> - (1 / 2) < (0::rat)"
proof -
  have "trunc (- (1 / 2)) = 0" by code_simp
  then show ?thesis by (simp add: py_int_def fmt_comma_def str_nat.simps digit_char_def)
qed



lemma round_half_even_nearest: "\<bar>of_int (round_half_even x) - x\<bar> \<le> 1 / 2"
proof -
  define d where "d = x - of_int \<lfloor>x\<rfloor>"
  have d: "0 \<le> d" "d < 1" unfolding d_def by linarith+
  have x: "x = of_int \<lfloor>x\<rfloor> + d" unfolding d_def by simp
  consider "d < 1 / 2" | "1 / 2 < d" | "d = 1 / 2" by linarith
  then show ?thesis
  proof cases
    case 1
    then have "round_half_even x = \<lfloor>x\<rfloor>"
      unfolding round_half_even_def Let_def d_def by simp
    then show ?thesis using d 1 unfolding d_def by simp
  next
    case 2
    then have "round_half_even x = \<lfloor>x\<rfloor> + 1"
      unfolding round_half_even_def Let_def d_def by simp
    then show ?thesis using d 2 unfolding d_def by simp
  next
    case 3
    then have "round_half_even x = \<lfloor>x\<rfloor> \<or> round_half_even x = \<lfloor>x\<rfloor> + 1"
      unfolding round_half_even_def Let_def d_def by simp
    then show ?thesis using 3 unfolding d_def by auto
  qed
qed

lemma round_half_even_of_int: "round_half_even (of_int k) = k"
  unfolding round_half_even_def Let_def by simp

lemma map_result_map_Inr: "map_result (\<lambda>v. v) (map Inr ys) = Inr ys"
  by (induction ys) simp_all

lemma map_result_id_Inr_D: "map_result (\<lambda>v. v) xs = Inr ys \<Longrightarrow> xs = map Inr ys"
proof (induction xs arbitrary: ys)
  case Nil
  then show ?case by simp
next
  case (Cons x xs)
  then show ?case by (auto split: sum.splits)
qed

lemma map_result_id_Inr: "(map_result (\<lambda>v. v) xs = Inr ys) = (xs = map Inr ys)"
  using map_result_map_Inr map_result_id_Inr_D by blast

lemma map_result_id_Inl: "map_result (\<lambda>v. v) xs = Inl e \<Longrightarrow> Inl e \<in> set xs"
  by (induction xs) (auto split: sum.splits)

lemma below_ten:
  "(j < (10::nat)) = (j = 0 \<or> j = 1 \<or> j = 2 \<or> j = 3 \<or> j = 4 \<or> j = 5 \<or> j = 6 \<or> j = 7 \<or> j = 8 \<or> j = 9)"
  by presburger

lemma absent_values:
  assumes "i key = None \<or> i key = Some PNone"
  shows "percent_value i key = Inr ''N/A''" "int_value i key = Inr ''N/A''"
    "float0_value i key = Inr ''N/A''"
  using assms unfolding percent_value_def int_value_def float0_value_def info_get_def
  by auto

lemma numeric_values:
  assumes "i key = Some (PNum r)"
  shows "percent_value i key = Inr (fmt_0f_float (f64_mul (Fin r) (Fin 100)) @ '' %'')"
    "int_value i key = Inr (str_int (trunc r))"
    "float0_value i key = Inr (fmt_0f r)"
  using assms unfolding percent_value_def int_value_def float0_value_def info_get_def info_get0_def
  by auto

lemma value_ok:
  assumes "i key \<noteq> Some PDict"
  shows "\<exists>s. percent_value i key = Inr s" "\<exists>s. int_value i key = Inr s"
    "\<exists>s. float0_value i key = Inr s"
proof -
  consider "i key = None \<or> i key = Some PNone" | r where "i key = Some (PNum r)"
    using assms by (cases "i key") (auto intro: pyval.exhaust)
  then show "\<exists>s. percent_value i key = Inr s" "\<exists>s. int_value i key = Inr s"
    "\<exists>s. float0_value i key = Inr s"
    by (cases; simp add: absent_values numeric_values)+
qed

lemma kpi_values_nth:
  "kpi_values i ! 0 = percent_value i (kpi_keys ! 0)"
  "kpi_values i ! 1 = int_value i (kpi_keys ! 1)"
  "kpi_values i ! 2 = int_value i (kpi_keys ! 2)"
  "kpi_values i ! 3 = percent_value i (kpi_keys ! 3)"
  "kpi_values i ! 4 = percent_value i (kpi_keys ! 4)"
  "kpi_values i ! 5 = percent_value i (kpi_keys ! 5)"
  "kpi_values i ! 6 = percent_value i (kpi_keys ! 6)"
  "kpi_values i ! 7 = int_value i (kpi_keys ! 7)"
  "kpi_values i ! 8 = percent_value i (kpi_keys ! 8)"
  "kpi_values i ! 9 = float0_value i (kpi_keys ! 9)"
  unfolding kpi_values_def kpi_keys_def by simp_all

lemma length_kpi_values: "length (kpi_values i) = 10"
  unfolding kpi_values_def by simp

lemma length_kpi_metrics: "length kpi_metrics = 10"
  unfolding kpi_metrics_def by simp

lemma kpi_values_absent:
  assumes "j < 10" "i (kpi_keys ! j) = None \<or> i (kpi_keys ! j) = Some PNone"
  shows "kpi_values i ! j = Inr ''N/A''"
  using assms unfolding below_ten
  by (elim disjE; simp only: kpi_values_nth; simp add: absent_values)

lemma kpi_values_ok:
  assumes "j < 10" "i (kpi_keys ! j) \<noteq> Some PDict"
  shows "\<exists>s. kpi_values i ! j = Inr s"
  using assms unfolding below_ten
  by (elim disjE; simp only: kpi_values_nth; simp add: value_ok)

lemma kpi_data_Inr:
  "(kpi_data i = Inr row) = (\<exists>vs. kpi_values i = map Inr vs \<and> row = zip kpi_metrics vs)"
  unfolding kpi_data_def
  by (cases "map_result (\<lambda>v. v) (kpi_values i)")
     (auto simp: map_result_id_Inr map_result_map_Inr)

lemma kpi_data_row:
  assumes "kpi_data i = Inr row"
  shows "length row = 10" "map fst row = kpi_metrics"
    "j < 10 \<Longrightarrow> kpi_values i ! j = Inr (snd (row ! j))"
    "j < 10 \<Longrightarrow> fst (row ! j) = kpi_metrics ! j"
proof -
  from assms obtain vs where vs: "kpi_values i = map Inr vs" "row = zip kpi_metrics vs"
    unfolding kpi_data_Inr by blast
  from vs(1) have len: "length vs = 10" using length_kpi_values [of i] by simp
  show "length row = 10" using vs(2) len length_kpi_metrics by simp
  show "map fst row = kpi_metrics" using vs(2) len length_kpi_metrics by simp
  show "kpi_values i ! j = Inr (snd (row ! j))" if "j < 10"
    using that vs len length_kpi_metrics by simp
  show "fst (row ! j) = kpi_metrics ! j" if "j < 10"
    using that vs len length_kpi_metrics by simp
qed

lemma kpi_data_ok:
  assumes "\<forall>j<10. i (kpi_keys ! j) \<noteq> Some PDict"
  shows "\<exists>row. kpi_data i = Inr row"
proof -
  have "\<forall>j<length (kpi_values i). \<exists>s. kpi_values i ! j = Inr s"
    using assms kpi_values_ok by (simp add: length_kpi_values)
  then have "\<forall>v \<in> set (kpi_values i). \<exists>s. v = Inr s"
    by (metis in_set_conv_nth)
  then have "\<And>e. Inl e \<notin> set (kpi_values i)" by auto
  then have "\<And>e. map_result (\<lambda>v. v) (kpi_values i) \<noteq> Inl e"
    using map_result_id_Inl by blast
  then show ?thesis unfolding kpi_data_def by (auto split: sum.splits)
qed

text \<open>
  C7. A metric whose key is missing from the attribute map, or is \<open>None\<close> there, is rendered
  as \<open>N/A\<close>; in every row that \<open>kpi_data\<close> builds, the metrics stand in the fixed order and
  each absent one reads \<open>N/A\<close>. An absent metric never makes the row fail: the row is built
  whenever no metric holds a value that is neither a number nor \<open>None\<close>. For the empty map
  all ten metrics read \<open>N/A\<close>, in the fixed order.
\<close>

theorem kpi_absent_is_na:
  "(\<forall>j<10. i (kpi_keys ! j) = None \<or> i (kpi_keys ! j) = Some PNone \<longrightarrow>
       kpi_values i ! j = Inr ''N/A'')
   \<and> (\<forall>row. kpi_data i = Inr row \<longrightarrow>
         map fst row = kpi_metrics
         \<and> (\<forall>j<10. i (kpi_keys ! j) = None \<or> i (kpi_keys ! j) = Some PNone \<longrightarrow>
               snd (row ! j) = ''N/A''))
   \<and> ((\<forall>j<10. i (kpi_keys ! j) \<noteq> Some PDict) \<longrightarrow> (\<exists>row. kpi_data i = Inr row))
   \<and> kpi_data Map.empty =
       Inr [(''Return on Equity'', ''N/A''), (''Debt to Equity'', ''N/A''),
            (''Current Ratio'', ''N/A''), (''Gross Margins'', ''N/A''),
            (''Operating Margins'', ''N/A''), (''Profit Margins'', ''N/A''),
            (''EBITDA Margins'', ''N/A''), (''Quick Ratio'', ''N/A''),
            (''Payout Ratio'', ''N/A''), (''Beta'', ''N/A'')]"
proof (intro conjI allI impI)
  fix j assume "j < 10" "i (kpi_keys ! j) = None \<or> i (kpi_keys ! j) = Some PNone"
  then show "kpi_values i ! j = Inr ''N/A''" by (rule kpi_values_absent)
next
  fix row assume "kpi_data i = Inr row"
  then show "map fst row = kpi_metrics" by (rule kpi_data_row)
next
  fix row j
  assume row: "kpi_data i = Inr row" and j: "j < 10"
    and "i (kpi_keys ! j) = None \<or> i (kpi_keys ! j) = Some PNone"
  then have "kpi_values i ! j = Inr ''N/A''" by (intro kpi_values_absent)
  then show "snd (row ! j) = ''N/A''" using kpi_data_row(3) [OF row j] by simp
next
  assume "\<forall>j<10. i (kpi_keys ! j) \<noteq> Some PDict"
  then show "\<exists>row. kpi_data i = Inr row" by (rule kpi_data_ok)
next
  show "kpi_data Map.empty =
       Inr [(''Return on Equity'', ''N/A''), (''Debt to Equity'', ''N/A''),
            (''Current Ratio'', ''N/A''), (''Gross Margins'', ''N/A''),
            (''Operating Margins'', ''N/A''), (''Profit Margins'', ''N/A''),
            (''EBITDA Margins'', ''N/A''), (''Quick Ratio'', ''N/A''),
            (''Payout Ratio'', ''N/A''), (''Beta'', ''N/A'')]"
    by (simp add: kpi_data_def kpi_values_def kpi_metrics_def percent_value_def int_value_def
        float0_value_def info_get_def)
qed


theorem kpi_absent_is_na_witness:
  "(0::nat) < 10
   \<and> [''beta'' \<mapsto> PNum 1] (kpi_keys ! 0) = None
   \<and> kpi_values [''beta'' \<mapsto> PNum 1] ! 0 = Inr ''N/A''
   \<and> (\<exists>row. kpi_data [''beta'' \<mapsto> PNum 1] = Inr row \<and> snd (row ! 0) = ''N/A'')"
proof -
  let ?i = "[''beta'' \<mapsto> PNum 1]"
  note t = kpi_absent_is_na [of ?i]
  have absent: "?i (kpi_keys ! 0) = None \<or> ?i (kpi_keys ! 0) = Some PNone"
    by (simp add: kpi_keys_def)
  have nodict: "\<forall>j<10. ?i (kpi_keys ! j) \<noteq> Some PDict"
    unfolding below_ten by (auto simp: kpi_keys_def)
  have c1: "\<forall>j<10. ?i (kpi_keys ! j) = None \<or> ?i (kpi_keys ! j) = Some PNone \<longrightarrow>
       kpi_values ?i ! j = Inr ''N/A''"
    using t by (elim conjE)
  have c2: "\<forall>row. kpi_data ?i = Inr row \<longrightarrow>
         map fst row = kpi_metrics
         \<and> (\<forall>j<10. ?i (kpi_keys ! j) = None \<or> ?i (kpi_keys ! j) = Some PNone \<longrightarrow>
               snd (row ! j) = ''N/A'')"
    using t by (elim conjE)
  have c3: "(\<forall>j<10. ?i (kpi_keys ! j) \<noteq> Some PDict) \<longrightarrow> (\<exists>row. kpi_data ?i = Inr row)"
    using t by (elim conjE)
  have zero: "(0::nat) < 10" by simp
  have v: "kpi_values ?i ! 0 = Inr ''N/A''"
    using c1 [rule_format, of 0] zero absent by blast
  from c3 nodict obtain row where row: "kpi_data ?i = Inr row" by blast
  have "snd (row ! 0) = ''N/A''"
    using c2 [rule_format, OF row] zero absent by blast
  with row have "\<exists>row. kpi_data ?i = Inr row \<and> snd (row ! 0) = ''N/A''" by blast
  moreover have "?i (kpi_keys ! 0) = None" by (simp add: kpi_keys_def)
  ultimately show ?thesis using v zero by blast
qed

text \<open>
  C8, as amended. The row is built whenever no metric holds a non-numeric value. In it a
  numeric ratio metric (Return on Equity, the four margins, Payout Ratio) is rendered as the
  float product of the value and 100 in \<open>.0f\<close> format followed by \<open> %\<close>; a numeric Debt to
  Equity, Current Ratio or Quick Ratio is rendered as the decimal text of its truncation
  towards zero; a numeric Beta is rendered in \<open>.0f\<close> format, that is rounded to the nearest
  whole number and not truncated. Rounding is to a nearest integer; truncation drops the
  fractional part.
\<close>

theorem kpi_numeric_rendering:
  "((\<forall>j<10. i (kpi_keys ! j) \<noteq> Some PDict) \<longrightarrow> (\<exists>row. kpi_data i = Inr row))
   \<and> (\<forall>row. kpi_data i = Inr row \<longrightarrow>
         (\<forall>j\<in>{0, 3, 4, 5, 6, 8}. \<forall>r. i (kpi_keys ! j) = Some (PNum r) \<longrightarrow>
             row ! j = (kpi_metrics ! j, fmt_0f_float (f64_mul (Fin r) (Fin 100)) @ '' %''))
       \<and> (\<forall>j\<in>{1, 2, 7}. \<forall>r. i (kpi_keys ! j) = Some (PNum r) \<longrightarrow>
             row ! j = (kpi_metrics ! j, str_int (trunc r)))
       \<and> (\<forall>r. i (kpi_keys ! 9) = Some (PNum r) \<longrightarrow>
             row ! 9 = (kpi_metrics ! 9, fmt_0f r)))
   \<and> \<bar>of_int (round_half_even x) - x\<bar> \<le> 1 / 2
   \<and> \<bar>of_int (trunc x)\<bar> \<le> \<bar>x\<bar> \<and> \<bar>x - of_int (trunc x)\<bar> < 1"
proof -
  have ok: "(\<forall>j<10. i (kpi_keys ! j) \<noteq> Some PDict) \<longrightarrow> (\<exists>row. kpi_data i = Inr row)"
    using kpi_data_ok by blast
  have rows: "(\<forall>j\<in>{0, 3, 4, 5, 6, 8}. \<forall>r. i (kpi_keys ! j) = Some (PNum r) \<longrightarrow>
             row ! j = (kpi_metrics ! j, fmt_0f_float (f64_mul (Fin r) (Fin 100)) @ '' %''))
       \<and> (\<forall>j\<in>{1, 2, 7}. \<forall>r. i (kpi_keys ! j) = Some (PNum r) \<longrightarrow>
             row ! j = (kpi_metrics ! j, str_int (trunc r)))
       \<and> (\<forall>r. i (kpi_keys ! 9) = Some (PNum r) \<longrightarrow>
             row ! 9 = (kpi_metrics ! 9, fmt_0f r))"
    if row: "kpi_data i = Inr row" for row
  proof -
    have cell: "row ! j = (kpi_metrics ! j, s)" if "j < 10" "kpi_values i ! j = Inr s" for j s
      using kpi_data_row(3,4) [OF row that(1)] that(2) by (simp add: prod_eq_iff)
    have pct: "row ! j = (kpi_metrics ! j, fmt_0f_float (f64_mul (Fin r) (Fin 100)) @ '' %'')"
      if "j \<in> {0, 3, 4, 5, 6, 8}" "i (kpi_keys ! j) = Some (PNum r)" for j r
    proof -
      have "j < 10" using that(1) by auto
      moreover have "kpi_values i ! j = percent_value i (kpi_keys ! j)"
        using that(1) by (auto simp only: kpi_values_nth)
      ultimately show ?thesis
        using numeric_values(1) [of i "kpi_keys ! j" r] that(2) by (intro cell) simp_all
    qed
    have int: "row ! j = (kpi_metrics ! j, str_int (trunc r))"
      if "j \<in> {1, 2, 7}" "i (kpi_keys ! j) = Some (PNum r)" for j r
    proof -
      have "j < 10" using that(1) by auto
      moreover have "kpi_values i ! j = int_value i (kpi_keys ! j)"
        using that(1) by (auto simp only: kpi_values_nth)
      ultimately show ?thesis
        using numeric_values(2) [of i "kpi_keys ! j" r] that(2) by (intro cell) simp_all
    qed
    have beta: "row ! 9 = (kpi_metrics ! 9, fmt_0f r)" if "i (kpi_keys ! 9) = Some (PNum r)" for r
    proof -
      have "kpi_values i ! 9 = Inr (fmt_0f r)"
        using numeric_values(3) [of i "kpi_keys ! 9" r] that by (simp only: kpi_values_nth)
      then show ?thesis by (intro cell) simp_all
    qed
    show ?thesis using pct int beta by blast
  qed
  show ?thesis
    using ok rows round_half_even_nearest [of x] trunc_magnitude [of x] trunc_fraction [of x]
    by blast
qed


text \<open>The witness takes the float nearest to 0.155 as Return on Equity: its float product
  with 100 is 15.5, which the format rounds to 16.\<close>

theorem kpi_numeric_rendering_witness:
  "(1::nat) \<in> {1, 2, 7} \<and> (0::nat) \<in> {0, 3, 4, 5, 6, 8}
   \<and> kpi_data [''returnOnEquity'' \<mapsto> PNum (5584463537939415 / 36028797018963968),
                  ''debtToEquity'' \<mapsto> PNum (1343 / 4), ''beta'' \<mapsto> PNum (5 / 2)]
       = Inr [(''Return on Equity'', ''16 %''), (''Debt to Equity'', ''335''),
            (''Current Ratio'', ''N/A''), (''Gross Margins'', ''N/A''),
            (''Operating Margins'', ''N/A''), (''Profit Margins'', ''N/A''),
            (''EBITDA Margins'', ''N/A''), (''Quick Ratio'', ''N/A''),
            (''Payout Ratio'', ''N/A''), (''Beta'', ''2'')]"
proof -
  let ?roe = "5584463537939415 / 36028797018963968 :: rat"
  let ?i = "[''returnOnEquity'' \<mapsto> PNum ?roe, ''debtToEquity'' \<mapsto> PNum (1343 / 4),
             ''beta'' \<mapsto> PNum (5 / 2)]"
  note t = kpi_numeric_rendering [of ?i 0]
  have nodict: "\<forall>j<10. ?i (kpi_keys ! j) \<noteq> Some PDict"
    unfolding below_ten by (auto simp: kpi_keys_def)
  have c1: "(\<forall>j<10. ?i (kpi_keys ! j) \<noteq> Some PDict) \<longrightarrow> (\<exists>row. kpi_data ?i = Inr row)"
    using t by (elim conjE)
  then obtain row where row: "kpi_data ?i = Inr row" using nodict by blast
  have c2: "\<forall>row. kpi_data ?i = Inr row \<longrightarrow>
         (\<forall>j\<in>{0, 3, 4, 5, 6, 8}. \<forall>r. ?i (kpi_keys ! j) = Some (PNum r) \<longrightarrow>
             row ! j = (kpi_metrics ! j, fmt_0f_float (f64_mul (Fin r) (Fin 100)) @ '' %''))
       \<and> (\<forall>j\<in>{1, 2, 7}. \<forall>r. ?i (kpi_keys ! j) = Some (PNum r) \<longrightarrow>
             row ! j = (kpi_metrics ! j, str_int (trunc r)))
       \<and> (\<forall>r. ?i (kpi_keys ! 9) = Some (PNum r) \<longrightarrow>
             row ! 9 = (kpi_metrics ! 9, fmt_0f r))"
    using t by (elim conjE)
  have m0: "(0::nat) \<in> {0, 3, 4, 5, 6, 8}" and m1: "(1::nat) \<in> {1, 2, 7}" by simp_all
  have k0: "?i (kpi_keys ! 0) = Some (PNum ?roe)"
    and k1: "?i (kpi_keys ! 1) = Some (PNum (1343 / 4))"
    and k9: "?i (kpi_keys ! 9) = Some (PNum (5 / 2))"
    by (simp_all add: kpi_keys_def)
  have r0: "row ! 0 = (kpi_metrics ! 0, fmt_0f_float (f64_mul (Fin ?roe) (Fin 100)) @ '' %'')"
    using c2 [rule_format, OF row] m0 k0 by blast
  have r1: "row ! 1 = (kpi_metrics ! 1, str_int (trunc (1343 / 4)))"
    using c2 [rule_format, OF row] m1 k1 by blast
  have r9: "row ! 9 = (kpi_metrics ! 9, fmt_0f (5 / 2))"
    using c2 [rule_format, OF row] k9 by blast
  have f0: "fmt_0f_float (f64_mul (Fin ?roe) (Fin 100)) = ''16''" by code_simp
  have e1: "trunc (1343 / 4) = 335" by code_simp
  have e9: "round_half_even (5 / 2) = 2" by code_simp
  have f1: "str_int (trunc (1343 / 4)) = ''335''"
    by (simp add: str_int_def e1 str_nat.simps digit_char_def)
  have f9: "fmt_0f (5 / 2) = ''2''"
    by (simp add: fmt_0f_def e9 str_nat.simps digit_char_def)
  have direct: "kpi_data ?i
       = Inr [(''Return on Equity'', fmt_0f_float (f64_mul (Fin ?roe) (Fin 100)) @ '' %''),
            (''Debt to Equity'', str_int (trunc (1343 / 4))),
            (''Current Ratio'', ''N/A''), (''Gross Margins'', ''N/A''),
            (''Operating Margins'', ''N/A''), (''Profit Margins'', ''N/A''),
            (''EBITDA Margins'', ''N/A''), (''Quick Ratio'', ''N/A''),
            (''Payout Ratio'', ''N/A''), (''Beta'', fmt_0f (5 / 2))]"
    by (simp add: kpi_data_def kpi_values_def kpi_metrics_def percent_value_def int_value_def
        float0_value_def info_get_def info_get0_def)
  have "row ! 0 = (''Return on Equity'', ''16 %'')" "row ! 1 = (''Debt to Equity'', ''335'')"
    "row ! 9 = (''Beta'', ''2'')"
    using r0 r1 r9 unfolding f0 f1 f9 by (simp_all add: kpi_metrics_def)
  then show ?thesis using direct row m0 m1 unfolding f0 f1 f9 by simp
qed

text \<open>
  C8 as stated fails for Beta: the value 1.7 is rendered as \<open>2\<close>, while the truncated-integer
  text of 1.7 is \<open>1\<close>.
\<close>

theorem beta_is_rounded:
  "kpi_data [''beta'' \<mapsto> PNum (17 / 10)]
     = Inr [(''Return on Equity'', ''N/A''), (''Debt to Equity'', ''N/A''),
            (''Current Ratio'', ''N/A''), (''Gross Margins'', ''N/A''),
            (''Operating Margins'', ''N/A''), (''Profit Margins'', ''N/A''),
            (''EBITDA Margins'', ''N/A''), (''Quick Ratio'', ''N/A''),
            (''Payout Ratio'', ''N/A''), (''Beta'', ''2'')]
   \<and> str_int (trunc (17 / 10)) = ''1''"
proof -
  have e: "round_half_even (17 / 10) = 2" by code_simp
  have t: "trunc (17 / 10) = 1" by code_simp
  have f: "fmt_0f (17 / 10) = ''2''"
    by (simp add: fmt_0f_def e str_nat.simps digit_char_def)
  have s: "str_int (trunc (17 / 10)) = ''1''"
    by (simp add: str_int_def t str_nat.simps digit_char_def)
  show ?thesis
    by (simp add: kpi_data_def kpi_values_def kpi_metrics_def percent_value_def int_value_def
        float0_value_def info_get_def info_get0_def f s)
qed



lemma length_diff: "length (diff data) = length data"
  unfolding diff_def by (cases data) simp_all

lemma length_gain_series: "length (gain_series d) = length d"
  unfolding gain_series_def by simp

lemma length_loss_series: "length (loss_series d) = length d"
  unfolding loss_series_def by simp

lemma length_rolling_mean: "length (rolling_mean w xs) = length xs"
  unfolding rolling_mean_def by simp

lemma length_calculate_rsi: "length (calculate_rsi data w) = length data"
  unfolding calculate_rsi_def Let_def
  by (simp add: length_rolling_mean length_gain_series length_loss_series length_diff)

lemma rolling_mean_nth:
  "i < length xs \<Longrightarrow>
   rolling_mean w xs ! i =
     (if 0 < w \<and> w \<le> i + 1
      then Some (sum_list (take w (drop (i + 1 - w) xs)) / of_nat w) else None)"
  unfolding rolling_mean_def by simp

lemma calculate_rsi_nth:
  assumes "i < length data"
  shows "calculate_rsi data w ! i =
     rsi_of (of_option (rolling_mean w (gain_series (diff data)) ! i))
            (of_option (rolling_mean w (loss_series (diff data)) ! i))"
  using assms unfolding calculate_rsi_def Let_def rsi_of_def
  by (simp add: length_rolling_mean length_gain_series length_loss_series length_diff)

lemma rsi_of_NaN: "rsi_of NaN NaN = NaN"
  unfolding rsi_of_def by simp

lemma rsi_of_Fin:
  assumes "0 \<le> g" "0 \<le> l"
  shows "rsi_of (Fin g) (Fin l) =
     (if l = 0 then (if g = 0 then NaN else Fin 100) else Fin (100 - 100 / (1 + g / l)))"
proof (cases "l = 0")
  case True
  show ?thesis
  proof (cases "g = 0")
    case True
    with \<open>l = 0\<close> show ?thesis unfolding rsi_of_def by (simp add: fdiv_zero_zero)
  next
    case False
    then have "0 < g" using assms(1) by simp
    then have "fdiv (Fin g) (Fin l) = PInf" unfolding True by (rule fdiv_Fin_zero)
    then show ?thesis using True False unfolding rsi_of_def
      by (simp add: fdiv_Fin_PInf signed_zero_def)
  qed
next
  case False
  then have l: "0 < l" using assms(2) by simp
  have "0 \<le> g / l" using assms by simp
  then have pos: "0 < 1 + g / l" by linarith
  have "rsi_of (Fin g) (Fin l) = fsub (Fin 100) (fdiv (Fin 100) (Fin (1 + g / l)))"
    unfolding rsi_of_def by (simp add: fdiv_Fin_pos [OF l])
  also have "\<dots> = Fin (100 - 100 / (1 + g / l))"
    by (simp add: fdiv_Fin_pos [OF pos])
  finally show ?thesis using False by simp
qed

lemma diff_nth:
  assumes "j < length data"
  shows "diff data ! j = (if j = 0 then None else Some (data ! j - data ! (j - 1)))"
proof (cases j)
  case 0
  then show ?thesis using assms unfolding diff_def by auto
next
  case (Suc k)
  then have "k < length (tl data)" "k < length data" using assms by auto
  then have "map2 (\<lambda>prev x. Some (x - prev)) data (tl data) ! k = Some (tl data ! k - data ! k)"
    by simp
  moreover have "tl data ! k = data ! Suc k" using assms Suc by (simp add: nth_tl)
  ultimately show ?thesis using assms Suc unfolding diff_def by auto
qed

lemma gain_series_nth:
  assumes "j < length data"
  shows "gain_series (diff data) ! j =
     (if 0 < j \<and> data ! (j - 1) < data ! j then data ! j - data ! (j - 1) else 0)"
  using assms unfolding gain_series_def by (simp add: length_diff diff_nth)

lemma loss_series_nth:
  assumes "j < length data"
  shows "loss_series (diff data) ! j =
     (if 0 < j \<and> data ! j < data ! (j - 1) then data ! (j - 1) - data ! j else 0)"
  using assms unfolding loss_series_def by (simp add: length_diff diff_nth)

lemma gain_series_nonneg: "x \<in> set (gain_series d) \<Longrightarrow> 0 \<le> x"
  unfolding gain_series_def by (auto split: option.splits)

lemma loss_series_nonneg: "x \<in> set (loss_series d) \<Longrightarrow> 0 \<le> x"
  unfolding loss_series_def by (auto split: option.splits)

lemma window_eq_map:
  assumes "k + w \<le> length xs"
  shows "take w (drop k xs) = map (\<lambda>t. xs ! (k + t)) [0..<w]"
  using assms by (intro nth_equalityI) auto

lemma set_window:
  assumes "w \<le> i + 1" "i < length xs"
  shows "set (take w (drop (i + 1 - w) xs)) = {xs ! j | j. i + 1 - w \<le> j \<and> j \<le> i}"
proof -
  have "i + 1 - w + w \<le> length xs" using assms by simp
  then have "set (take w (drop (i + 1 - w) xs)) = (\<lambda>t. xs ! (i + 1 - w + t)) ` {0..<w}"
    by (simp add: window_eq_map)
  also have "\<dots> = {xs ! j | j. i + 1 - w \<le> j \<and> j \<le> i}"
  proof (intro set_eqI iffI)
    fix x assume "x \<in> (\<lambda>t. xs ! (i + 1 - w + t)) ` {0..<w}"
    then obtain t where t: "t < w" "x = xs ! (i + 1 - w + t)" by auto
    then have "i + 1 - w \<le> i + 1 - w + t \<and> i + 1 - w + t \<le> i" using assms by linarith
    with t show "x \<in> {xs ! j | j. i + 1 - w \<le> j \<and> j \<le> i}" by blast
  next
    fix x assume "x \<in> {xs ! j | j. i + 1 - w \<le> j \<and> j \<le> i}"
    then obtain j where j: "i + 1 - w \<le> j" "j \<le> i" "x = xs ! j" by auto
    then have "j - (i + 1 - w) < w" "i + 1 - w + (j - (i + 1 - w)) = j" using assms by linarith+
    with j show "x \<in> (\<lambda>t. xs ! (i + 1 - w + t)) ` {0..<w}"
      by (intro image_eqI [where x = "j - (i + 1 - w)"]) simp_all
  qed
  finally show ?thesis .
qed

lemma window_sum_zero_iff:
  assumes "w \<le> i + 1" "i < length xs" "\<And>x. x \<in> set xs \<Longrightarrow> (0::rat) \<le> x"
  shows "sum_list (take w (drop (i + 1 - w) xs)) = 0 \<longleftrightarrow>
         (\<forall>j. i + 1 - w \<le> j \<and> j \<le> i \<longrightarrow> xs ! j = 0)"
proof -
  have nonneg: "\<And>x. x \<in> set (take w (drop (i + 1 - w) xs)) \<Longrightarrow> 0 \<le> x"
    using assms(3) by (meson in_set_dropD in_set_takeD)
  have "sum_list (take w (drop (i + 1 - w) xs)) = 0 \<longleftrightarrow>
        (\<forall>x \<in> set (take w (drop (i + 1 - w) xs)). x = 0)"
    using nonneg by (rule sum_list_nonneg_eq_0_iff)
  also have "\<dots> \<longleftrightarrow> (\<forall>j. i + 1 - w \<le> j \<and> j \<le> i \<longrightarrow> xs ! j = 0)"
    unfolding set_window [OF assms(1,2)] by auto
  finally show ?thesis .
qed

lemma window_sum_nonneg:
  assumes "\<And>x. x \<in> set xs \<Longrightarrow> (0::rat) \<le> x"
  shows "0 \<le> sum_list (take w (drop k xs))"
  by (rule sum_list_nonneg) (meson assms in_set_dropD in_set_takeD)

text \<open>The value of a position with enough history, in terms of the window sums.\<close>

lemma calculate_rsi_defined_nth:
  assumes "i < length data" "0 < w" "w \<le> i + 1"
  defines "G \<equiv> sum_list (take w (drop (i + 1 - w) (gain_series (diff data))))"
      and "L \<equiv> sum_list (take w (drop (i + 1 - w) (loss_series (diff data))))"
  shows "calculate_rsi data w ! i =
     (if L = 0 then (if G = 0 then NaN else Fin 100)
      else Fin (100 - 100 / (1 + (G / of_nat w) / (L / of_nat w))))"
proof -
  have G: "0 \<le> G" unfolding G_def by (rule window_sum_nonneg) (rule gain_series_nonneg)
  have L: "0 \<le> L" unfolding L_def by (rule window_sum_nonneg) (rule loss_series_nonneg)
  have g: "rolling_mean w (gain_series (diff data)) ! i = Some (G / of_nat w)"
    using assms(1-3) unfolding G_def
    by (simp add: rolling_mean_nth length_gain_series length_diff)
  have l: "rolling_mean w (loss_series (diff data)) ! i = Some (L / of_nat w)"
    using assms(1-3) unfolding L_def
    by (simp add: rolling_mean_nth length_loss_series length_diff)
  have "calculate_rsi data w ! i = rsi_of (Fin (G / of_nat w)) (Fin (L / of_nat w))"
    using calculate_rsi_nth [OF assms(1), of w] unfolding g l by simp
  also have "\<dots> = (if L / of_nat w = 0 then (if G / of_nat w = 0 then NaN else Fin 100)
      else Fin (100 - 100 / (1 + (G / of_nat w) / (L / of_nat w))))"
    using G L by (intro rsi_of_Fin) simp_all
  finally show ?thesis using assms(2) by simp
qed

lemma calculate_rsi_undefined_nth:
  assumes "i < length data" "\<not> (0 < w \<and> w \<le> i + 1)"
  shows "calculate_rsi data w ! i = NaN"
proof -
  have "rolling_mean w (gain_series (diff data)) ! i = None"
    using assms by (simp add: rolling_mean_nth length_gain_series length_diff)
  moreover have "rolling_mean w (loss_series (diff data)) ! i = None"
    using assms by (simp add: rolling_mean_nth length_loss_series length_diff)
  ultimately show ?thesis
    using calculate_rsi_nth [OF assms(1), of w] by (simp add: rsi_of_NaN)
qed


lemma flat_position:
  assumes "j < length data"
  shows "(gain_series (diff data) ! j = 0 \<and> loss_series (diff data) ! j = 0) =
         (0 < j \<longrightarrow> data ! j = data ! (j - 1))"
  using assms by (auto simp: gain_series_nth loss_series_nth)

lemma calculate_rsi_NaN_iff:
  assumes "i < length data" "0 < w" "w \<le> i + 1"
  shows "(calculate_rsi data w ! i = NaN) =
         (\<forall>j. i + 1 - w \<le> j \<and> j \<le> i \<and> 0 < j \<longrightarrow> data ! j = data ! (j - 1))"
proof -
  let ?gs = "gain_series (diff data)" and ?ls = "loss_series (diff data)"
  have ig: "i < length ?gs" and il: "i < length ?ls"
    using assms(1) by (simp_all add: length_gain_series length_loss_series length_diff)
  have G: "(sum_list (take w (drop (i + 1 - w) ?gs)) = 0) =
           (\<forall>j. i + 1 - w \<le> j \<and> j \<le> i \<longrightarrow> ?gs ! j = 0)"
    using assms(3) ig by (rule window_sum_zero_iff) (rule gain_series_nonneg)
  have L: "(sum_list (take w (drop (i + 1 - w) ?ls)) = 0) =
           (\<forall>j. i + 1 - w \<le> j \<and> j \<le> i \<longrightarrow> ?ls ! j = 0)"
    using assms(3) il by (rule window_sum_zero_iff) (rule loss_series_nonneg)
  have "(calculate_rsi data w ! i = NaN) =
        (sum_list (take w (drop (i + 1 - w) ?ls)) = 0 \<and>
         sum_list (take w (drop (i + 1 - w) ?gs)) = 0)"
    unfolding calculate_rsi_defined_nth [OF assms] by simp
  also have "\<dots> = (\<forall>j. i + 1 - w \<le> j \<and> j \<le> i \<longrightarrow> ?gs ! j = 0 \<and> ?ls ! j = 0)"
    unfolding G L by blast
  also have "\<dots> = (\<forall>j. i + 1 - w \<le> j \<and> j \<le> i \<and> 0 < j \<longrightarrow> data ! j = data ! (j - 1))"
  proof -
    have "(?gs ! j = 0 \<and> ?ls ! j = 0) = (0 < j \<longrightarrow> data ! j = data ! (j - 1))" if "j \<le> i" for j
      using that assms(1) by (intro flat_position) simp
    then show ?thesis by blast
  qed
  finally show ?thesis .
qed

text \<open>
  C4, as amended. The output of \<open>calculate_rsi\<close> has the length of its input. Every position
  with fewer than \<open>window\<close> samples up to it is undefined. A position \<open>i\<close> with enough history
  is undefined exactly when each of the \<open>window\<close> price differences ending at \<open>i\<close> is zero
  or is the undefined first difference, that is when every price at a position \<open>j\<close> from
  \<open>i + 1 - window\<close> to \<open>i\<close>, other than position 0, equals the price before it (the first of
  these comparisons reaches one price before the last \<open>window\<close> samples); it is defined
  otherwise. A series of at most one price, and a window that is larger than the series or
  is 0, give an entirely undefined output.
\<close>

theorem calculate_rsi_shape:
  "length (calculate_rsi data w) = length data
   \<and> (\<forall>i<length data. i + 1 < w \<longrightarrow> calculate_rsi data w ! i = NaN)
   \<and> (\<forall>i<length data. 0 < w \<and> w \<le> i + 1 \<longrightarrow>
         (calculate_rsi data w ! i = NaN) =
         (\<forall>j. i + 1 - w \<le> j \<and> j \<le> i \<and> 0 < j \<longrightarrow> data ! j = data ! (j - 1)))
   \<and> (length data \<le> 1 \<longrightarrow> (\<forall>i<length data. calculate_rsi data w ! i = NaN))
   \<and> (length data < w \<or> w = 0 \<longrightarrow> (\<forall>i<length data. calculate_rsi data w ! i = NaN))"
proof (intro conjI allI impI)
  show "length (calculate_rsi data w) = length data" by (rule length_calculate_rsi)
next
  fix i assume "i < length data" "i + 1 < w"
  then show "calculate_rsi data w ! i = NaN" by (intro calculate_rsi_undefined_nth) simp_all
next
  fix i assume "i < length data" "0 < w \<and> w \<le> i + 1"
  then show "(calculate_rsi data w ! i = NaN) =
         (\<forall>j. i + 1 - w \<le> j \<and> j \<le> i \<and> 0 < j \<longrightarrow> data ! j = data ! (j - 1))"
    by (intro calculate_rsi_NaN_iff) simp_all
next
  fix i assume short: "length data \<le> 1" and i: "i < length data"
  then have i0: "i = 0" by simp
  show "calculate_rsi data w ! i = NaN"
  proof (cases "0 < w \<and> w \<le> i + 1")
    case True
    then have "(calculate_rsi data w ! i = NaN) =
         (\<forall>j. i + 1 - w \<le> j \<and> j \<le> i \<and> 0 < j \<longrightarrow> data ! j = data ! (j - 1))"
      using i by (intro calculate_rsi_NaN_iff) simp_all
    then show ?thesis using i0 by simp
  next
    case False
    with i show ?thesis by (rule calculate_rsi_undefined_nth)
  qed
next
  fix i assume "length data < w \<or> w = 0" "i < length data"
  then show "calculate_rsi data w ! i = NaN" by (intro calculate_rsi_undefined_nth) auto
qed

theorem calculate_rsi_shape_witness:
  "calculate_rsi [1, 2, 1, 1, 1, 3] 2 ! 0 = NaN
   \<and> calculate_rsi [1, 2, 1, 1, 1, 3] 2 ! 1 \<noteq> NaN
   \<and> calculate_rsi [1, 2, 1, 1, 1, 3] 2 ! 4 = NaN
   \<and> calculate_rsi [7] 1 ! 0 = NaN
   \<and> calculate_rsi [1, 2, 3] 5 ! 2 = NaN"
proof -
  let ?d = "[1, 2, 1, 1, 1, 3::rat]"
  note t = calculate_rsi_shape [of ?d 2]
  have a: "\<forall>i<length ?d. i + 1 < 2 \<longrightarrow> calculate_rsi ?d 2 ! i = NaN"
    using t by (elim conjE)
  have b: "\<forall>i<length ?d. 0 < (2::nat) \<and> 2 \<le> i + 1 \<longrightarrow>
         (calculate_rsi ?d 2 ! i = NaN) =
         (\<forall>j. i + 1 - 2 \<le> j \<and> j \<le> i \<and> 0 < j \<longrightarrow> ?d ! j = ?d ! (j - 1))"
    using t by (elim conjE)
  have c: "length [7::rat] \<le> 1 \<longrightarrow> (\<forall>i<length [7::rat]. calculate_rsi [7] 1 ! i = NaN)"
    using calculate_rsi_shape [of "[7]" 1] by (elim conjE)
  have d: "length [1, 2, 3::rat] < 5 \<or> (5::nat) = 0 \<longrightarrow>
      (\<forall>i<length [1, 2, 3::rat]. calculate_rsi [1, 2, 3] 5 ! i = NaN)"
    using calculate_rsi_shape [of "[1, 2, 3]" 5] by (elim conjE)
  have r0: "calculate_rsi ?d 2 ! 0 = NaN" using a by simp
  have "(calculate_rsi ?d 2 ! 1 = NaN) =
         (\<forall>j. 1 + 1 - 2 \<le> j \<and> j \<le> 1 \<and> 0 < j \<longrightarrow> ?d ! j = ?d ! (j - 1))"
    using b [rule_format, of 1] by simp
  also have "\<dots> = False"
  proof -
    have "\<not> (1 + 1 - 2 \<le> (1::nat) \<and> (1::nat) \<le> 1 \<and> 0 < (1::nat) \<longrightarrow> ?d ! 1 = ?d ! (1 - 1))"
      by simp
    then show ?thesis by blast
  qed
  finally have r1: "calculate_rsi ?d 2 ! 1 \<noteq> NaN" by simp
  have "(calculate_rsi ?d 2 ! 4 = NaN) =
         (\<forall>j. 4 + 1 - 2 \<le> j \<and> j \<le> 4 \<and> 0 < j \<longrightarrow> ?d ! j = ?d ! (j - 1))"
    using b [rule_format, of 4] by simp
  also have "\<dots> = True"
  proof -
    have "?d ! j = ?d ! (j - 1)" if "4 + 1 - 2 \<le> j \<and> j \<le> 4" for j
    proof -
      from that have "j = 3 \<or> j = 4" by auto
      then show ?thesis by auto
    qed
    then show ?thesis by blast
  qed
  finally have r3: "calculate_rsi ?d 2 ! 4 = NaN" by simp
  have r4: "calculate_rsi [7] 1 ! 0 = NaN" using c by simp
  have r5: "calculate_rsi [1, 2, 3] 5 ! 2 = NaN" using d by simp
  show ?thesis using r0 r1 r3 r4 r5 by blast
qed

text \<open>
  C4 as stated fails on a flat series: with the prices 1, 1, 1 and the window 2 the positions
  1 and 2 have enough history, and are undefined all the same.
\<close>

theorem flat_series_undefined:
  "length [1, 1, 1::rat] = 3 \<and> calculate_rsi [1, 1, 1] 2 = [NaN, NaN, NaN]"
  by code_simp

text \<open>
  C5. For a strictly increasing close series with at least 14 samples and the window 14, the
  division by the zero average loss gives a value (no error): the first 13 positions are
  undefined and every later position is exactly 100.
\<close>

theorem rsi_saturates:
  assumes "sorted_wrt (<) data" "14 \<le> length data"
  shows "length (calculate_rsi data 14) = length data
    \<and> (\<forall>i<length data. calculate_rsi data 14 ! i = (if i < 13 then NaN else Fin 100))"
proof (intro conjI allI impI)
  show "length (calculate_rsi data 14) = length data" by (rule length_calculate_rsi)
next
  fix i assume i: "i < length data"
  let ?gs = "gain_series (diff data)" and ?ls = "loss_series (diff data)"
  have up: "data ! (j - 1) < data ! j" if "0 < j" "j < length data" for j
    using assms(1) that by (intro sorted_wrt_nth_less) simp_all
  show "calculate_rsi data 14 ! i = (if i < 13 then NaN else Fin 100)"
  proof (cases "i < 13")
    case True
    then show ?thesis using i by (simp add: calculate_rsi_undefined_nth)
  next
    case False
    then have w: "(0::nat) < 14" "14 \<le> i + 1" by simp_all
    have ig: "i < length ?gs" and il: "i < length ?ls"
      using i by (simp_all add: length_gain_series length_loss_series length_diff)
    have "\<forall>j. i + 1 - 14 \<le> j \<and> j \<le> i \<longrightarrow> ?ls ! j = 0"
    proof (intro allI impI)
      fix j assume "i + 1 - 14 \<le> j \<and> j \<le> i"
      then have j: "j < length data" using i by simp
      show "?ls ! j = 0" using up [of j] j by (auto simp: loss_series_nth)
    qed
    then have L: "sum_list (take 14 (drop (i + 1 - 14) ?ls)) = 0"
      using window_sum_zero_iff [OF w(2) il loss_series_nonneg] by simp
    have "?gs ! i \<noteq> 0" using up [of i] i False by (simp add: gain_series_nth)
    moreover have "i + 1 - 14 \<le> i \<and> i \<le> i" by simp
    ultimately have "\<not> (\<forall>j. i + 1 - 14 \<le> j \<and> j \<le> i \<longrightarrow> ?gs ! j = 0)" by blast
    then have G: "sum_list (take 14 (drop (i + 1 - 14) ?gs)) \<noteq> 0"
      using window_sum_zero_iff [OF w(2) ig gain_series_nonneg] by simp
    show ?thesis using False L G unfolding calculate_rsi_defined_nth [OF i w] by simp
  qed
qed


lemma only_losses_rsi_zero:
  assumes "sorted_wrt (>) data" "14 \<le> length data"
  shows "last (calculate_rsi data 14) = Fin 0"
proof -
  let ?gs = "gain_series (diff data)" and ?ls = "loss_series (diff data)"
  define i where "i = length data - 1"
  have i: "i < length data" and w: "(0::nat) < 14" "14 \<le> i + 1"
    using assms(2) unfolding i_def by simp_all
  have down: "data ! j < data ! (j - 1)" if "0 < j" "j < length data" for j
    using assms(1) that by (intro sorted_wrt_nth_less [where P = "(>)"]) simp_all
  have ig: "i < length ?gs" and il: "i < length ?ls"
    using i by (simp_all add: length_gain_series length_loss_series length_diff)
  have "\<forall>j. i + 1 - 14 \<le> j \<and> j \<le> i \<longrightarrow> ?gs ! j = 0"
  proof (intro allI impI)
    fix j assume "i + 1 - 14 \<le> j \<and> j \<le> i"
    then have j: "j < length data" using i by simp
    show "?gs ! j = 0" using down [of j] j by (auto simp: gain_series_nth)
  qed
  then have G: "sum_list (take 14 (drop (i + 1 - 14) ?gs)) = 0"
    using window_sum_zero_iff [OF w(2) ig gain_series_nonneg] by simp
  have "0 < i" using w by simp
  then have "?ls ! i \<noteq> 0" using down [of i] i by (simp add: loss_series_nth)
  moreover have "i + 1 - 14 \<le> i \<and> i \<le> i" by simp
  ultimately have "\<not> (\<forall>j. i + 1 - 14 \<le> j \<and> j \<le> i \<longrightarrow> ?ls ! j = 0)" by blast
  then have L: "sum_list (take 14 (drop (i + 1 - 14) ?ls)) \<noteq> 0"
    using window_sum_zero_iff [OF w(2) il loss_series_nonneg] by simp
  have "calculate_rsi data 14 ! i = Fin 0"
    using L G unfolding calculate_rsi_defined_nth [OF i w] by simp
  moreover have "calculate_rsi data 14 \<noteq> []"
    using i length_calculate_rsi [of data 14] by auto
  ultimately show ?thesis
    unfolding i_def by (simp add: last_conv_nth length_calculate_rsi)
qed

theorem rsi_saturates_witness:
  "sorted_wrt (<) [1, 2, 3, 4, 5, 6, 7, 8, 9, 10, 11, 12, 13, 14, 15::rat]
   \<and> 14 \<le> length [1, 2, 3, 4, 5, 6, 7, 8, 9, 10, 11, 12, 13, 14, 15::rat]
   \<and> calculate_rsi [1, 2, 3, 4, 5, 6, 7, 8, 9, 10, 11, 12, 13, 14, 15] 14 ! 12 = NaN
   \<and> calculate_rsi [1, 2, 3, 4, 5, 6, 7, 8, 9, 10, 11, 12, 13, 14, 15] 14 ! 13 = Fin 100
   \<and> calculate_rsi [1, 2, 3, 4, 5, 6, 7, 8, 9, 10, 11, 12, 13, 14, 15] 14 ! 14 = Fin 100"
proof -
  let ?d = "[1, 2, 3, 4, 5, 6, 7, 8, 9, 10, 11, 12, 13, 14, 15::rat]"
  have s: "sorted_wrt (<) ?d" by simp
  have l: "14 \<le> length ?d" by simp
  have "\<forall>i<length ?d. calculate_rsi ?d 14 ! i = (if i < 13 then NaN else Fin 100)"
    using rsi_saturates [OF s l] by (elim conjE)
  then have "\<forall>i<15. calculate_rsi ?d 14 ! i = (if i < 13 then NaN else Fin 100)" by simp
  then have "calculate_rsi ?d 14 ! 12 = NaN" "calculate_rsi ?d 14 ! 13 = Fin 100"
    "calculate_rsi ?d 14 ! 14 = Fin 100"
    by simp_all
  then show ?thesis using s l by blast
qed



lemma card_row_of_ticker: "card_row_of ticker snap = Inr row \<Longrightarrow> card_ticker row = ticker"
  unfolding card_row_of_def Let_def by (auto split: sum.splits if_splits)

lemma try_card_row_ticker: "card_ticker (try_card_row fetch ticker) = ticker"
  unfolding try_card_row_def by (auto split: sum.splits dest: card_row_of_ticker)

lemma get_stock_data_map: "get_stock_data fetch tickers = map (try_card_row fetch) tickers"
  by (induction tickers) simp_all

lemma get_stock_data_rows:
  "length (get_stock_data fetch tickers) = length tickers
   \<and> map card_ticker (get_stock_data fetch tickers) = tickers
   \<and> (\<forall>i<length tickers. \<forall>e. fetch (tickers ! i) = Inl e \<longrightarrow>
         get_stock_data fetch tickers ! i = CardError (tickers ! i) e)
   \<and> (\<forall>i<length tickers. \<forall>snap e.
         fetch (tickers ! i) = Inr snap \<and> card_row_of (tickers ! i) snap = Inl e \<longrightarrow>
         get_stock_data fetch tickers ! i = CardError (tickers ! i) e)"
proof -
  have "map card_ticker (get_stock_data fetch tickers) = tickers"
    unfolding get_stock_data_map by (induction tickers) (simp_all add: try_card_row_ticker)
  then show ?thesis
    by (simp add: get_stock_data_map try_card_row_def)
qed

text \<open>
  C3. With the tickers AAA, BAD, CCC and a data source that fails for BAD,
  \<open>update_table_and_dropdown\<close> of proto.py ends with the error of BAD and returns no rows,
  while \<open>get_stock_data\<close> returns three rows in the input order, the second one the error
  variant for BAD.
\<close>

theorem update_table_aborts:
  "update_table example_source [''AAA'', ''BAD'', ''CCC''] = Inl (FetchFailure ''no data'')
   \<and> get_stock_data example_source [''AAA'', ''BAD'', ''CCC''] =
       [Card ''AAA'' (Val (PNum 10)) (Val (PNum 1)) (Val (PNum 9)) [1, 2, 3],
        CardError ''BAD'' (FetchFailure ''no data''),
        Card ''CCC'' (Val (PNum 10)) (Val (PNum 1)) (Val (PNum 9)) [1, 2, 3]]"
  by (simp add: example_source_def table_row_of_def card_row_of_def try_card_row_def info_get_def info_get0_def)

lemma update_table_rows:
  "update_table fetch tickers = Inr rows \<Longrightarrow> map row_ticker rows = tickers"
proof (induction tickers arbitrary: rows)
  case Nil
  then show ?case by simp
next
  case (Cons t ts)
  then show ?case
    by (auto split: sum.splits simp: table_row_of_def Let_def)
qed

text \<open>A ticker that fails anywhere in the list makes the whole call of
  \<open>update_table_and_dropdown\<close> fail.\<close>

lemma update_table_fails:
  assumes "i < length tickers" "fetch (tickers ! i) = Inl e"
  shows "\<exists>e'. update_table fetch tickers = Inl e'"
  using assms
proof (induction tickers arbitrary: i)
  case Nil
  then show ?case by simp
next
  case (Cons t ts)
  show ?case
  proof (cases i)
    case 0
    then show ?thesis using Cons.prems by simp
  next
    case (Suc j)
    then have "\<exists>e'. update_table fetch ts = Inl e'" using Cons by auto
    then show ?thesis by (auto split: sum.splits)
  qed
qed

text \<open>
  C10. When the price history of a ticker is not empty and its latest RSI is exactly 0, every
  row built for the ticker has the RSI entry \<open>N/A\<close>, and such a row is built whenever the
  current price and the volume are numbers.
\<close>

theorem zero_rsi_renders_na:
  assumes "snap_close snap \<noteq> []"
      and "last (calculate_rsi (snap_close snap) 14) = Fin 0"
  shows "(\<forall>row. table_row_of ticker snap = Inr row \<longrightarrow> row_rsi row = RsiNA)
    \<and> ((\<exists>p v. info_get0 (snap_info snap) ''currentPrice'' = PNum p
             \<and> info_get0 (snap_info snap) ''volume'' = PNum v)
        \<longrightarrow> (\<exists>row. table_row_of ticker snap = Inr row \<and> row_rsi row = RsiNA))"
proof -
  have "rsi_entry (latest_rsi (snap_close snap)) = RsiNA"
    using assms unfolding latest_rsi_def by simp
  then show ?thesis
    unfolding table_row_of_def Let_def by (auto split: sum.splits)
qed

theorem zero_rsi_renders_na_witness:
  "table_row_of ''XYZ''
     \<lparr>snap_info = [''currentPrice'' \<mapsto> PNum 2, ''volume'' \<mapsto> PNum 500],
      snap_close = [15, 14, 13, 12, 11, 10, 9, 8, 7, 6, 5, 4, 3, 2]\<rparr>
   = Inr \<lparr>row_ticker = ''XYZ'', row_price = 2, row_rsi = RsiNA\<rparr>"
proof -
  let ?snap = "\<lparr>snap_info = [''currentPrice'' \<mapsto> PNum 2, ''volume'' \<mapsto> PNum 500],
      snap_close = [15, 14, 13, 12, 11, 10, 9, 8, 7, 6, 5, 4, 3, 2::rat]\<rparr>"
  have ne: "snap_close ?snap \<noteq> []" by simp
  have "last (calculate_rsi [15, 14, 13, 12, 11, 10, 9, 8, 7, 6, 5, 4, 3, 2::rat] 14) = Fin 0"
    by (rule only_losses_rsi_zero) simp_all
  then have z: "last (calculate_rsi (snap_close ?snap) 14) = Fin 0" by simp
  have num: "\<exists>p v. info_get0 (snap_info ?snap) ''currentPrice'' = PNum p
             \<and> info_get0 (snap_info ?snap) ''volume'' = PNum v"
    by (simp add: info_get0_def)
  from zero_rsi_renders_na [OF ne z, of "''XYZ''"] num
  obtain row where row: "table_row_of ''XYZ'' ?snap = Inr row" "row_rsi row = RsiNA"
    by blast
  have r2: "round2 2 = 2" by code_simp
  have "row_ticker row = ''XYZ''" "row_price row = 2"
    using row(1) unfolding table_row_of_def Let_def
    by (auto simp: info_get0_def r2 split: sum.splits)
  with row show ?thesis by simp
qed


section \<open>Properties of one percentage-change cell\<close>

lemma round_half_even_abs_of_int: "round_half_even \<bar>of_int k\<bar> = \<bar>k\<bar>"
proof -
  have "\<bar>rat_of_int k\<bar> = of_int \<bar>k\<bar>" by simp
  then show ?thesis by (simp only: round_half_even_of_int)
qed

text \<open>A percentage change is never NaN: it is infinite, a zero, or a whole number.\<close>

lemma fround0_shape:
  assumes "t \<noteq> NaN"
  shows "fround0 t = PInf \<or> fround0 t = NInf \<or> fround0 t = NZero
       \<or> (\<exists>k. fround0 t = Fin (of_int k))"
proof (cases t)
  case (Fin a)
  have "\<exists>k. Fin 0 = Fin (rat_of_int k)" by (rule exI [of _ 0]) simp
  then show ?thesis unfolding Fin by (auto simp: signed_zero_def)
qed (use assms in auto)

lemma fillna0_not_NaN: "fillna0 v \<noteq> NaN"
  by (cases v) auto

lemma pct_change_shape:
  "pct_change x y = PInf \<or> pct_change x y = NInf \<or> pct_change x y = NZero
   \<or> (\<exists>k. pct_change x y = Fin (of_int k))"
  unfolding pct_change_def by (rule fround0_shape) (rule fillna0_not_NaN)

lemma style_pct_whole:
  "style_pct (Num (Fin (of_int k))) =
     Span ((if k < 0 then ''-'' else ''+'') @ str_nat (nat \<bar>k\<bar>) @ '' %'')
          (if 0 < k then ''green'' else if k < 0 then ''red'' else ''white'')"
  by (simp add: fmt_plus_0f_def round_half_even_abs_of_int)

lemma signed_percent_style_pct: "signed_percent (pct_change x y) (style_pct (Num (pct_change x y)))"
proof -
  consider "pct_change x y = PInf" | "pct_change x y = NInf" | "pct_change x y = NZero"
    | k where "pct_change x y = Fin (of_int k)"
    using pct_change_shape by blast
  then show ?thesis
  proof cases
    case 4
    have "signed_percent (Fin (of_int k)) (style_pct (Num (Fin (of_int k))))"
      unfolding style_pct_whole by simp
    then show ?thesis unfolding 4 .
  qed simp_all
qed

text \<open>Values of single cells: 150 after 100, 50 after 100, a negative value after 0, and a
  pair on which the rounding of the float quotient decides the result (the exact change is
  57.5, the float product lies just below it).\<close>

lemma pct_examples:
  "pct_change (Fin 150) (Fin 100) = Fin 50"
  "pct_change (Fin 50) (Fin 100) = Fin (- 50)"
  "pct_change (Fin (- 5)) (Fin 0) = NZero"
  "pct_change (Fin 63) (Fin 40) = Fin 57"
  by code_simp+


section \<open>Frames: labels and columns through the normalizer\<close>

lemma get_column_set_column:
  "get_column (set_column df c vs) l = (if l = c then vs else get_column df l)"
  unfolding get_column_def by (induction df c vs rule: set_column.induct) auto

lemma labels_set_column:
  "map fst (set_column df c vs) = (if c \<in> fst ` set df then map fst df else map fst df @ [c])"
  by (induction df c vs rule: set_column.induct) auto

lemma set_column_new: "c \<notin> fst ` set df \<Longrightarrow> set_column df c vs = df @ [(c, vs)]"
  by (induction df c vs rule: set_column.induct) auto

lemma get_column_append_old:
  assumes "l \<in> fst ` set df"
  shows "get_column (df @ extra) l = get_column df l"
proof -
  from assms obtain vs where "map_of df l = Some vs"
    by (metis map_of_eq_None_iff not_Some_eq)
  then show ?thesis unfolding get_column_def by (simp add: map_add_def)
qed

lemma get_column_append_new:
  assumes "distinct (map lab js)" "i \<in> set js" "lab i \<notin> fst ` set df"
  shows "get_column (df @ map (\<lambda>j. (lab j, val j)) js) (lab i) = val i"
proof -
  have "map_of df (lab i) = None" using assms(3) by (simp add: map_of_eq_None_iff)
  moreover have "map_of (map (\<lambda>j. (lab j, val j)) js) (lab i) = Some (val i)"
  proof -
    have "distinct (map fst (map (\<lambda>j. (lab j, val j)) js))"
      using assms(1) by (simp add: comp_def)
    moreover have "(lab i, val i) \<in> set (map (\<lambda>j. (lab j, val j)) js)"
      using assms(2) by auto
    ultimately show ?thesis by (simp only: map_of_eq_Some_iff)
  qed
  ultimately show ?thesis unfolding get_column_def by (simp add: map_add_def)
qed

text \<open>A loop that replaces each of the listed columns by its image under a cell function.\<close>

lemma map_columns:
  assumes "distinct cols" "set cols \<subseteq> fst ` set df"
  shows "map fst (foldl (\<lambda>d col. set_column d col (map f (get_column d col))) df cols) = map fst df
    \<and> (\<forall>l. get_column (foldl (\<lambda>d col. set_column d col (map f (get_column d col))) df cols) l =
          (if l \<in> set cols then map f (get_column df l) else get_column df l))"
  using assms
proof (induction cols arbitrary: df)
  case Nil
  then show ?case by simp
next
  case (Cons c cols)
  let ?df = "set_column df c (map f (get_column df c))"
  have c: "c \<in> fst ` set df" "c \<notin> set cols" "distinct cols" using Cons.prems by auto
  have labels: "map fst ?df = map fst df" using c(1) by (simp add: labels_set_column)
  then have same: "fst ` set ?df = fst ` set df" by (metis set_map)
  have "set cols \<subseteq> fst ` set ?df" using Cons.prems(2) same by auto
  with Cons.IH [of ?df] c(3)
  have IH: "map fst (foldl (\<lambda>d col. set_column d col (map f (get_column d col))) ?df cols) = map fst ?df"
    "\<And>l. get_column (foldl (\<lambda>d col. set_column d col (map f (get_column d col))) ?df cols) l =
          (if l \<in> set cols then map f (get_column ?df l) else get_column ?df l)"
    by blast+
  show ?case using c(2) by (simp add: IH labels get_column_set_column)
qed

text \<open>The loop that adds the percentage-change columns appends one column per index.\<close>

lemma add_columns_append:
  assumes "distinct (map (\<lambda>i. pct_label (nc ! i)) js)"
      and "\<forall>i\<in>set js. pct_label (nc ! i) \<notin> fst ` set df"
      and "\<forall>i\<in>set js. nc ! i \<in> fst ` set df \<and> nc ! (i + 1) \<in> fst ` set df"
  shows "foldl (\<lambda>d i. set_column d (pct_label (nc ! i)) (pct_column d (nc ! i) (nc ! (i + 1)))) df js
         = df @ map (\<lambda>i. (pct_label (nc ! i), pct_column df (nc ! i) (nc ! (i + 1)))) js"
  using assms
proof (induction js rule: rev_induct)
  case Nil
  then show ?case by simp
next
  case (snoc i js)
  let ?ex = "map (\<lambda>i. (pct_label (nc ! i), pct_column df (nc ! i) (nc ! (i + 1)))) js"
  have IH: "foldl (\<lambda>d i. set_column d (pct_label (nc ! i)) (pct_column d (nc ! i) (nc ! (i + 1)))) df js
         = df @ ?ex"
    using snoc by simp
  have new: "pct_label (nc ! i) \<notin> fst ` set (df @ ?ex)"
    using snoc.prems(1,2) by (auto simp: image_iff)
  have old: "nc ! i \<in> fst ` set df" "nc ! (i + 1) \<in> fst ` set df" using snoc.prems(3) by simp_all
  have col: "pct_column (df @ ?ex) (nc ! i) (nc ! (i + 1)) = pct_column df (nc ! i) (nc ! (i + 1))"
    unfolding pct_column_def by (simp only: get_column_append_old [OF old(1)]
        get_column_append_old [OF old(2)])
  show ?case
    by (simp only: foldl_append foldl.simps IH col set_column_new [OF new]) simp
qed

lemma map_result_eq: "(map_result f xs = Inr ys) = (map f xs = map Inr ys)"
proof (induction xs arbitrary: ys)
  case Nil
  then show ?case by auto
next
  case (Cons x xs)
  show ?case
  proof (cases "f x")
    case (Inl e)
    then show ?thesis by auto
  next
    case (Inr y)
    show ?thesis
    proof (cases "map_result f xs")
      case (Inl e)
      then have "\<And>zs. map f xs \<noteq> map Inr zs" using Cons.IH by auto
      then show ?thesis using Inl \<open>f x = Inr y\<close> by (cases ys) auto
    next
      case inner: (Inr zs)
      then have "map f xs = map Inr zs" using Cons.IH by blast
      then show ?thesis using inner \<open>f x = Inr y\<close> by (cases ys) auto
    qed
  qed
qed

lemma format_columns_ok:
  assumes "distinct cols" "set cols \<subseteq> fst ` set df"
      and "\<forall>c\<in>set cols. \<exists>ys. map_result format_number (get_column df c) = Inr ys"
  shows "\<exists>df'. format_columns cols df = Inr df' \<and> map fst df' = map fst df
         \<and> (\<forall>l. l \<notin> set cols \<longrightarrow> get_column df' l = get_column df l)
         \<and> (\<forall>l\<in>set cols. map_result format_number (get_column df l) = Inr (get_column df' l))"
  using assms
proof (induction cols arbitrary: df)
  case Nil
  then show ?case by simp
next
  case (Cons c cols)
  from Cons.prems(3) obtain vs where vs: "map_result format_number (get_column df c) = Inr vs"
    by auto
  let ?df = "set_column df c vs"
  have c: "c \<in> fst ` set df" "c \<notin> set cols" "distinct cols" using Cons.prems by auto
  have labels: "map fst ?df = map fst df" using c(1) by (simp add: labels_set_column)
  then have same: "fst ` set ?df = fst ` set df" by (metis set_map)
  have sub: "set cols \<subseteq> fst ` set ?df" using Cons.prems(2) same by auto
  have keep: "get_column ?df l = get_column df l" if "l \<noteq> c" for l
    using that by (simp add: get_column_set_column)
  have ok: "\<forall>c'\<in>set cols. \<exists>ys. map_result format_number (get_column ?df c') = Inr ys"
  proof
    fix c' assume c': "c' \<in> set cols"
    then have "c' \<noteq> c" using c(2) by auto
    then have "get_column ?df c' = get_column df c'" by (rule keep)
    then show "\<exists>ys. map_result format_number (get_column ?df c') = Inr ys"
      using Cons.prems(3) c' by simp
  qed
  from Cons.IH [OF c(3) sub ok] obtain df' where df':
    "format_columns cols ?df = Inr df'" "map fst df' = map fst ?df"
    "\<forall>l. l \<notin> set cols \<longrightarrow> get_column df' l = get_column ?df l"
    "\<forall>l\<in>set cols. map_result format_number (get_column ?df l) = Inr (get_column df' l)"
    by blast
  have "format_columns (c # cols) df = Inr df'" using vs df'(1) by simp
  moreover have "map fst df' = map fst df" using df'(2) labels by simp
  moreover have "\<forall>l. l \<notin> set (c # cols) \<longrightarrow> get_column df' l = get_column df l"
    using df'(3) keep by auto
  moreover have "\<forall>l\<in>set (c # cols). map_result format_number (get_column df l) = Inr (get_column df' l)"
  proof
    fix l assume "l \<in> set (c # cols)"
    then consider "l = c" | "l \<in> set cols" "l \<noteq> c" using c(2) by auto
    then show "map_result format_number (get_column df l) = Inr (get_column df' l)"
    proof cases
      case 1
      then have "get_column df' l = vs" using df'(3) c(2) by (simp add: get_column_set_column)
      then show ?thesis using vs 1 by simp
    next
      case 2
      then show ?thesis using df'(4) keep by auto
    qed
  qed
  ultimately show ?case by blast
qed

lemma reverse_rows_columns:
  "map fst (reverse_rows df) = map fst df"
  "get_column (reverse_rows df) l = rev (get_column df l)"
proof -
  show "map fst (reverse_rows df) = map fst df"
    unfolding reverse_rows_def by (induction df) auto
  have "map_of (map (\<lambda>(l, vs). (l, rev vs)) df) l = map_option rev (map_of df l)"
    by (induction df) auto
  then show "get_column (reverse_rows df) l = rev (get_column df l)"
    unfolding reverse_rows_def get_column_def by (cases "map_of df l") simp_all
qed

lemma map_result_ok:
  assumes "\<forall>x\<in>set xs. \<exists>y. f x = Inr y"
  shows "\<exists>ys. map_result f xs = Inr ys"
  using assms by (induction xs) auto

lemma format_number_filled:
  assumes "v \<noteq> PInf" "v \<noteq> NInf"
  shows "\<exists>y. format_number (Num (fillna0 v)) = Inr y"
  using assms by (cases v) (auto simp: py_int_def)

lemma percent_in_pct_label: "CHR ''%'' \<in> set (label_text (pct_label l))"
  unfolding pct_label_def by simp

text \<open>
  The display statement of a raw statement whose period labels are distinct and free of \<open>%\<close>
  and whose cells are finite or NaN: its labels, and each of its columns.
\<close>

lemma normalize_statement_columns:
  assumes d: "distinct (map fst (periods raw))"
      and fin: "\<forall>(p, vs)\<in>set (periods raw). PInf \<notin> set vs \<and> NInf \<notin> set vs"
      and nopct: "\<forall>(p, vs)\<in>set (periods raw). CHR ''%'' \<notin> set p"
  shows "\<exists>df. normalize_statement (Some raw) = Inr df
    \<and> map fst df = Name ''index'' # map (\<lambda>(p, vs). Stamp p) (periods raw)
         @ map (\<lambda>i. Name (fst (periods raw ! i) @ ''-%'')) [1..<length (periods raw) - 1]
    \<and> get_column df (Name ''index'') = rev (map Str (line_items raw))
    \<and> (\<forall>j<length (periods raw).
          map_result format_number (map (\<lambda>v. Num (fillna0 v)) (snd (periods raw ! j)))
            = Inr (rev (get_column df (Stamp (fst (periods raw ! j))))))
    \<and> (\<forall>i. 1 \<le> i \<and> i + 1 < length (periods raw) \<longrightarrow>
          get_column df (Name (fst (periods raw ! i) @ ''-%'')) =
            rev (map2 (\<lambda>c p. style_pct (Num (pct_change (fillna0 c) (fillna0 p))))
                   (snd (periods raw ! i)) (snd (periods raw ! (i + 1)))))"
proof -
  let ?P = "periods raw"
  define n where "n = length ?P"
  define ps where "ps = map fst ?P"
  define col where "col = (\<lambda>j. map (\<lambda>v. Num (fillna0 v)) (snd (?P ! j)))"
  define df0 where "df0 = map (\<lambda>(l, vs). (l, map fillna0_cell vs)) (reset_index raw)"
  define nc where "nc = map fst (tl df0)"
  define df1 where "df1 = to_numeric nc df0"
  define df2 where "df2 = add_pct_columns nc df1"
  define js where "js = [1..<n - 1]"
  have df0: "df0 = (Name ''index'', map Str (line_items raw))
                   # map (\<lambda>(p, vs). (Stamp p, map (\<lambda>v. Num (fillna0 v)) vs)) ?P"
    unfolding df0_def reset_index_def by (simp add: comp_def case_prod_unfold)
  have nc: "nc = map Stamp ps"
    unfolding nc_def df0 ps_def by (simp add: comp_def case_prod_unfold)
  have len_ps: "length ps = n" unfolding ps_def n_def by simp
  have len_nc: "length nc = n" unfolding nc len_ps [symmetric] by simp
  have nth_nc: "nc ! j = Stamp (ps ! j)" if "j < n" for j
    unfolding nc using that len_ps by simp
  have nth_ps: "ps ! j = fst (?P ! j)" if "j < n" for j
    unfolding ps_def using that n_def by simp
  have dist_ps: "distinct ps" unfolding ps_def by (rule d)
  have dist_nc: "distinct nc" unfolding nc using dist_ps by (simp add: distinct_map inj_on_def)
  have labels0: "map fst df0 = Name ''index'' # nc"
    unfolding df0 nc ps_def by (simp add: comp_def case_prod_unfold)
  have dist0: "distinct (map fst df0)"
    unfolding labels0 using dist_nc nc by auto
  have idx0: "get_column df0 (Name ''index'') = map Str (line_items raw)"
    unfolding df0 get_column_def by simp
  have col0: "get_column df0 (Stamp (ps ! j)) = col j" if "j < n" for j
  proof -
    have "(Stamp (ps ! j), col j) \<in> set df0"
    proof -
      have "?P ! j \<in> set ?P" using that n_def by simp
      then have "(\<lambda>(p, vs). (Stamp p, map (\<lambda>v. Num (fillna0 v)) vs)) (?P ! j) \<in> set (tl df0)"
        unfolding df0 by simp
      then show ?thesis
        unfolding col_def nth_ps [OF that] df0 by (simp add: case_prod_unfold)
    qed
    then have "map_of df0 (Stamp (ps ! j)) = Some (col j)"
      using dist0 by (simp only: map_of_eq_Some_iff)
    then show ?thesis unfolding get_column_def by simp
  qed
  have nc_sub0: "set nc \<subseteq> fst ` set df0"
  proof -
    have "fst ` set df0 = set (map fst df0)" by simp
    then show ?thesis unfolding labels0 by auto
  qed
  text \<open>\<open>to_numeric\<close> leaves the numeric cells as they are\<close>
  have num1: "map fst df1 = map fst df0
    \<and> (\<forall>l. get_column df1 l =
          (if l \<in> set nc then map (\<lambda>c. Num (cell_num c)) (get_column df0 l) else get_column df0 l))"
    unfolding df1_def to_numeric_def using dist_nc nc_sub0 by (rule map_columns)
  have labels1: "map fst df1 = Name ''index'' # nc" using num1 labels0 by simp
  have set1: "fst ` set df1 = insert (Name ''index'') (set nc)"
  proof -
    have "fst ` set df1 = set (map fst df1)" by simp
    then show ?thesis unfolding labels1 by simp
  qed
  have idx1: "get_column df1 (Name ''index'') = map Str (line_items raw)"
    using num1 idx0 nc by auto
  have col1: "get_column df1 (Stamp (ps ! j)) = col j" if "j < n" for j
  proof -
    have "Stamp (ps ! j) \<in> set nc" using that nth_nc len_nc by (metis nth_mem)
    then have "get_column df1 (Stamp (ps ! j)) = map (\<lambda>c. Num (cell_num c)) (col j)"
      using num1 col0 [OF that] by simp
    also have "\<dots> = col j" unfolding col_def by simp
    finally show ?thesis .
  qed
  text \<open>the percentage-change columns are appended\<close>
  have js_range: "1 \<le> i \<and> i + 1 < n" if "i \<in> set js" for i
    using that unfolding js_def by auto
  have pct_lab: "pct_label (nc ! i) = Name (ps ! i @ ''-%'')" if "i < n" for i
    unfolding nth_nc [OF that] pct_label_def by simp
  have dist_js: "distinct (map (\<lambda>i. pct_label (nc ! i)) js)"
  proof -
    have "inj_on (\<lambda>i. pct_label (nc ! i)) (set js)"
    proof (rule inj_onI)
      fix a b assume ab: "a \<in> set js" "b \<in> set js" "pct_label (nc ! a) = pct_label (nc ! b)"
      then have lt: "a < n" "b < n" using js_range by fastforce+
      then have "ps ! a = ps ! b" using ab(3) pct_lab by simp
      then show "a = b" using dist_ps lt len_ps by (simp add: nth_eq_iff_index_eq)
    qed
    moreover have "distinct js" unfolding js_def by simp
    ultimately show ?thesis by (simp add: distinct_map)
  qed
  have new_js: "\<forall>i\<in>set js. pct_label (nc ! i) \<notin> fst ` set df1"
  proof
    fix i assume "i \<in> set js"
    then have "i < n" using js_range by fastforce
    then have "pct_label (nc ! i) = Name (ps ! i @ ''-%'')" by (rule pct_lab)
    moreover have "Name (ps ! i @ ''-%'') \<noteq> Name ''index''" by auto
    moreover have "Name (ps ! i @ ''-%'') \<notin> set nc" unfolding nc by auto
    ultimately show "pct_label (nc ! i) \<notin> fst ` set df1" unfolding set1 by simp
  qed
  have old_js: "\<forall>i\<in>set js. nc ! i \<in> fst ` set df1 \<and> nc ! (i + 1) \<in> fst ` set df1"
  proof
    fix i assume "i \<in> set js"
    then have "i < length nc" "i + 1 < length nc" using js_range len_nc by fastforce+
    then have "nc ! i \<in> set nc" "nc ! (i + 1) \<in> set nc" by (simp_all only: nth_mem)
    then show "nc ! i \<in> fst ` set df1 \<and> nc ! (i + 1) \<in> fst ` set df1" unfolding set1 by simp
  qed
  have df2: "df2 = df1 @ map (\<lambda>i. (pct_label (nc ! i), pct_column df1 (nc ! i) (nc ! (i + 1)))) js"
    unfolding df2_def add_pct_columns_def len_nc js_def [symmetric]
    using dist_js new_js old_js by (rule add_columns_append)
  have labels2: "map fst df2 = Name ''index'' # nc @ map (\<lambda>i. pct_label (nc ! i)) js"
    unfolding df2 using labels1 by (simp add: comp_def)
  have dist2: "distinct (map fst df2)"
  proof -
    have "set (map (\<lambda>i. pct_label (nc ! i)) js) \<inter> insert (Name ''index'') (set nc) = {}"
      using new_js unfolding set1 by auto
    then show ?thesis unfolding labels2 using dist_nc dist_js nc by auto
  qed
  have idx2: "get_column df2 (Name ''index'') = map Str (line_items raw)"
    unfolding df2 using idx1 set1 by (simp add: get_column_append_old)
  have col2: "get_column df2 (Stamp (ps ! j)) = col j" if "j < n" for j
  proof -
    have "Stamp (ps ! j) \<in> fst ` set df1"
      unfolding set1 using that nth_nc len_nc by (metis insertI2 nth_mem)
    then show ?thesis unfolding df2 using col1 [OF that] by (simp add: get_column_append_old)
  qed
  have pct2: "get_column df2 (pct_label (nc ! i)) =
      map2 (\<lambda>c p. Num (pct_change (fillna0 c) (fillna0 p))) (snd (?P ! i)) (snd (?P ! (i + 1)))"
    if "i \<in> set js" for i
  proof -
    have lt: "i < n" "i + 1 < n" using js_range [OF that] by simp_all
    have "pct_label (nc ! i) \<notin> fst ` set df1" using new_js that by blast
    with dist_js that
    have "get_column df2 (pct_label (nc ! i)) = pct_column df1 (nc ! i) (nc ! (i + 1))"
      unfolding df2 by (rule get_column_append_new)
    also have "\<dots> = map2 (\<lambda>c p. Num (pct_change (cell_num c) (cell_num p))) (col i) (col (i + 1))"
      unfolding pct_column_def nth_nc [OF lt(1)] nth_nc [OF lt(2)] col1 [OF lt(1)] col1 [OF lt(2)]
      by simp
    also have "\<dots> = map2 (\<lambda>c p. Num (pct_change (fillna0 c) (fillna0 p)))
                        (snd (?P ! i)) (snd (?P ! (i + 1)))"
      unfolding col_def by (simp add: zip_map_map comp_def case_prod_unfold)
    finally show ?thesis .
  qed
  text \<open>the period columns are formatted\<close>
  have nc_sub2: "set nc \<subseteq> fst ` set df2"
  proof -
    have "fst ` set df2 = set (map fst df2)" by simp
    then show ?thesis unfolding labels2 by auto
  qed
  have fmt_ok: "\<forall>c\<in>set nc. \<exists>ys. map_result format_number (get_column df2 c) = Inr ys"
  proof
    fix c assume "c \<in> set nc"
    then obtain j where j: "j < n" "c = Stamp (ps ! j)"
      using len_nc nth_nc by (metis in_set_conv_nth)
    have "?P ! j \<in> set ?P" using j(1) n_def by simp
    then have noinf: "PInf \<notin> set (snd (?P ! j)) \<and> NInf \<notin> set (snd (?P ! j))"
      using fin by (auto simp: case_prod_unfold)
    have "\<exists>y. format_number (Num (fillna0 v)) = Inr y" if "v \<in> set (snd (?P ! j))" for v
    proof -
      have "v \<noteq> PInf" "v \<noteq> NInf" using that noinf by auto
      then show ?thesis by (rule format_number_filled)
    qed
    then have "\<forall>x\<in>set (col j). \<exists>y. format_number x = Inr y"
      unfolding col_def by (auto simp del: format_number.simps)
    then show "\<exists>ys. map_result format_number (get_column df2 c) = Inr ys"
      unfolding j(2) col2 [OF j(1)] by (rule map_result_ok)
  qed
  from format_columns_ok [OF dist_nc nc_sub2 fmt_ok] obtain df3 where df3:
    "format_columns nc df2 = Inr df3" "map fst df3 = map fst df2"
    "\<forall>l. l \<notin> set nc \<longrightarrow> get_column df3 l = get_column df2 l"
    "\<forall>l\<in>set nc. map_result format_number (get_column df2 l) = Inr (get_column df3 l)"
    by blast
  text \<open>the columns with \<open>%\<close> in their label are styled, and the rows reversed\<close>
  define df4 where "df4 = style_pct_columns df3"
  have dist_like: "distinct (filter_like_pct df3)"
    unfolding filter_like_pct_def using dist2 df3(2) by simp
  have sub_like: "set (filter_like_pct df3) \<subseteq> fst ` set df3"
    unfolding filter_like_pct_def by auto
  have sty: "map fst df4 = map fst df3
    \<and> (\<forall>l. get_column df4 l =
          (if l \<in> set (filter_like_pct df3) then map style_pct (get_column df3 l)
           else get_column df3 l))"
    unfolding df4_def style_pct_columns_def using dist_like sub_like by (rule map_columns)
  have like: "l \<in> set (filter_like_pct df3) \<longleftrightarrow>
      l \<in> set (map fst df2) \<and> CHR ''%'' \<in> set (label_text l)" for l
    unfolding filter_like_pct_def df3(2) by auto
  define final where "final = reverse_rows df4"
  have result: "normalize_statement (Some raw) = Inr final"
    unfolding normalize_statement_def Let_def final_def df4_def
    using df3(1) unfolding df2_def df1_def nc_def df0_def by simp
  have labels: "map fst final = Name ''index'' # map (\<lambda>(p, vs). Stamp p) ?P
         @ map (\<lambda>i. Name (fst (?P ! i) @ ''-%'')) [1..<length ?P - 1]"
  proof -
    have "map (\<lambda>i. pct_label (nc ! i)) js = map (\<lambda>i. Name (fst (?P ! i) @ ''-%'')) js"
    proof (rule map_cong [OF refl])
      fix i assume "i \<in> set js"
      then have "i < n" using js_range by fastforce
      then show "pct_label (nc ! i) = Name (fst (?P ! i) @ ''-%'')"
        using pct_lab nth_ps by simp
    qed
    moreover have "nc = map (\<lambda>(p, vs). Stamp p) ?P"
      unfolding nc ps_def by (simp add: case_prod_unfold)
    ultimately show ?thesis
      unfolding final_def reverse_rows_columns(1) using sty df3(2) labels2
      by (simp add: js_def n_def)
  qed
  have index: "get_column final (Name ''index'') = rev (map Str (line_items raw))"
  proof -
    have "Name ''index'' \<notin> set (filter_like_pct df3)" unfolding like by simp
    moreover have "Name ''index'' \<notin> set nc" unfolding nc by auto
    ultimately show ?thesis
      unfolding final_def reverse_rows_columns(2) using sty df3(3) idx2 by simp
  qed
  have period: "map_result format_number (map (\<lambda>v. Num (fillna0 v)) (snd (?P ! j)))
            = Inr (rev (get_column final (Stamp (fst (?P ! j)))))"
    if "j < length ?P" for j
  proof -
    have j: "j < n" using that n_def by simp
    have mem: "Stamp (ps ! j) \<in> set nc" using j nth_nc len_nc by (metis nth_mem)
    have "?P ! j \<in> set ?P" using that by simp
    then have "CHR ''%'' \<notin> set (fst (?P ! j))" using nopct by (auto simp: case_prod_unfold)
    then have "Stamp (ps ! j) \<notin> set (filter_like_pct df3)"
      unfolding like nth_ps [OF j] by simp
    then have "get_column final (Stamp (ps ! j)) = rev (get_column df3 (Stamp (ps ! j)))"
      unfolding final_def reverse_rows_columns(2) using sty by simp
    moreover have "map_result format_number (col j) = Inr (get_column df3 (Stamp (ps ! j)))"
      using df3(4) mem col2 [OF j] by auto
    ultimately show ?thesis unfolding col_def nth_ps [OF j] by simp
  qed
  have change: "get_column final (Name (fst (?P ! i) @ ''-%'')) =
            rev (map2 (\<lambda>c p. style_pct (Num (pct_change (fillna0 c) (fillna0 p))))
                   (snd (?P ! i)) (snd (?P ! (i + 1))))"
    if "1 \<le> i \<and> i + 1 < length ?P" for i
  proof -
    have i: "i \<in> set js" "i < n" using that unfolding js_def n_def by auto
    have lab: "Name (fst (?P ! i) @ ''-%'') = pct_label (nc ! i)"
      using pct_lab [OF i(2)] nth_ps [OF i(2)] by simp
    have "pct_label (nc ! i) \<in> set (map fst df2)" unfolding labels2 using i(1) by simp
    then have styled: "pct_label (nc ! i) \<in> set (filter_like_pct df3)"
      unfolding like using percent_in_pct_label by simp
    have "pct_label (nc ! i) \<notin> set nc" unfolding pct_label_def nc by auto
    then have "get_column df3 (pct_label (nc ! i)) = get_column df2 (pct_label (nc ! i))"
      using df3(3) by simp
    then have "get_column final (pct_label (nc ! i)) =
        rev (map style_pct (map2 (\<lambda>c p. Num (pct_change (fillna0 c) (fillna0 p)))
              (snd (?P ! i)) (snd (?P ! (i + 1)))))"
      unfolding final_def reverse_rows_columns(2) using sty styled pct2 [OF i(1)] by simp
    then show ?thesis unfolding lab by (simp add: comp_def case_prod_unfold)
  qed
  have periods: "\<forall>j<length ?P.
          map_result format_number (map (\<lambda>v. Num (fillna0 v)) (snd (?P ! j)))
            = Inr (rev (get_column final (Stamp (fst (?P ! j)))))"
    using period by blast
  have changes: "\<forall>i. 1 \<le> i \<and> i + 1 < length ?P \<longrightarrow>
          get_column final (Name (fst (?P ! i) @ ''-%'')) =
            rev (map2 (\<lambda>c p. style_pct (Num (pct_change (fillna0 c) (fillna0 p))))
                   (snd (?P ! i)) (snd (?P ! (i + 1))))"
    using change by blast
  show ?thesis
    by (rule exI [of _ final]) (intro conjI result labels index periods changes)
qed


section \<open>The display statement\<close>

text \<open>Every column of a display statement whose label contains \<open>%\<close> is the change column of
  an adjacent pair of periods, the first pair being that of the second and third period.\<close>

lemma change_columns:
  assumes d: "distinct (map fst (periods raw))"
      and fin: "\<forall>(p, vs)\<in>set (periods raw). PInf \<notin> set vs \<and> NInf \<notin> set vs"
      and nopct: "\<forall>(p, vs)\<in>set (periods raw). CHR ''%'' \<notin> set p"
  shows "\<exists>df. normalize_statement (Some raw) = Inr df
    \<and> (\<forall>l\<in>set (map fst df). CHR ''%'' \<in> set (label_text l) \<longrightarrow>
          (\<exists>i. 1 \<le> i \<and> i + 1 < length (periods raw)
             \<and> l = Name (fst (periods raw ! i) @ ''-%'')
             \<and> get_column df l =
                 rev (map2 (\<lambda>c p. style_pct (Num (pct_change (fillna0 c) (fillna0 p))))
                        (snd (periods raw ! i)) (snd (periods raw ! (i + 1))))))"
proof -
  let ?P = "periods raw"
  from normalize_statement_columns [OF assms] obtain df where df:
    "normalize_statement (Some raw) = Inr df"
    "map fst df = Name ''index'' # map (\<lambda>(p, vs). Stamp p) ?P
         @ map (\<lambda>i. Name (fst (?P ! i) @ ''-%'')) [1..<length ?P - 1]"
    "\<forall>i. 1 \<le> i \<and> i + 1 < length ?P \<longrightarrow>
          get_column df (Name (fst (?P ! i) @ ''-%'')) =
            rev (map2 (\<lambda>c p. style_pct (Num (pct_change (fillna0 c) (fillna0 p))))
                   (snd (?P ! i)) (snd (?P ! (i + 1))))"
    by (elim exE conjE) (rule that)
  have "\<exists>i. 1 \<le> i \<and> i + 1 < length ?P \<and> l = Name (fst (?P ! i) @ ''-%'')
             \<and> get_column df l =
                 rev (map2 (\<lambda>c p. style_pct (Num (pct_change (fillna0 c) (fillna0 p))))
                        (snd (?P ! i)) (snd (?P ! (i + 1))))"
    if l: "l \<in> set (map fst df)" "CHR ''%'' \<in> set (label_text l)" for l
  proof -
    have "l \<noteq> Name ''index''" using l(2) by auto
    moreover have "l \<notin> set (map (\<lambda>(p, vs). Stamp p) ?P)"
    proof
      assume "l \<in> set (map (\<lambda>(p, vs). Stamp p) ?P)"
      then obtain p vs where "(p, vs) \<in> set ?P" "l = Stamp p" by auto
      then show False using nopct l(2) by auto
    qed
    ultimately have "l \<in> set (map (\<lambda>i. Name (fst (?P ! i) @ ''-%'')) [1..<length ?P - 1])"
      using l(1) unfolding df(2) by simp
    then obtain i where i: "1 \<le> i" "i + 1 < length ?P" "l = Name (fst (?P ! i) @ ''-%'')"
      by auto
    then show ?thesis using df(3) by blast
  qed
  then show ?thesis using df(1) by blast
qed

text \<open>The number of value columns of a display statement, and the order of its rows.\<close>

lemma value_column_count:
  assumes d: "distinct (map fst (periods raw))"
      and fin: "\<forall>(p, vs)\<in>set (periods raw). PInf \<notin> set vs \<and> NInf \<notin> set vs"
      and nopct: "\<forall>(p, vs)\<in>set (periods raw). CHR ''%'' \<notin> set p"
  shows "\<exists>df. normalize_statement (Some raw) = Inr df
    \<and> length (value_columns df) = length (periods raw) + (length (periods raw) - 2)
    \<and> get_column df (Name ''index'') = rev (map Str (line_items raw))"
proof -
  from normalize_statement_columns [OF assms] obtain df where df:
    "normalize_statement (Some raw) = Inr df"
    "map fst df = Name ''index'' # map (\<lambda>(p, vs). Stamp p) (periods raw)
         @ map (\<lambda>i. Name (fst (periods raw ! i) @ ''-%'')) [1..<length (periods raw) - 1]"
    "get_column df (Name ''index'') = rev (map Str (line_items raw))"
    by (elim exE conjE) (rule that)
  have "length (value_columns df) = length (periods raw) + (length (periods raw) - 2)"
    unfolding value_columns_def df(2) by simp
  then show ?thesis using df(1,3) by blast
qed

lemma example_display:
  "normalize_statement (Some example_statement) =
     Inr [(Name ''index'', [Str ''Cost'', Str ''Revenue'']),
          (Stamp ''2024'', [Str ''(1,234)'', Str ''300'']),
          (Stamp ''2023'', [Str ''(50)'', Str ''150'']),
          (Stamp ''2022'', [Str ''0'', Str ''100'']),
          (Stamp ''2021'', [Str ''(25)'', Str ''200'']),
          (Name ''2023-%'', [Span ''-0 %'' ''white'', Span ''+50 %'' ''green'']),
          (Name ''2022-%'', [Span ''+100 %'' ''green'', Span ''-50 %'' ''red''])]"
  by code_simp

lemma example_statement_wellformed:
  "distinct (map fst (periods example_statement))"
  "\<forall>(p, vs)\<in>set (periods example_statement). PInf \<notin> set vs \<and> NInf \<notin> set vs"
  "\<forall>(p, vs)\<in>set (periods example_statement). CHR ''%'' \<notin> set p"
  unfolding example_statement_def by simp_all

text \<open>
  C1. In a raw statement with the periods 2024, 2023 and 2022 and the Revenue 150, 100 and
  80, the newest adjacent pair is 150 after 100, with a percentage change of 50. The display
  statement has a percentage-change cell for the pair 100 after 80 only: the newest pair gets
  no cell.
\<close>

theorem newest_pair_has_no_cell:
  "normalize_statement (Some three_period_statement) =
     Inr [(Name ''index'', [Str ''Revenue'']),
          (Stamp ''2024'', [Str ''150'']),
          (Stamp ''2023'', [Str ''100'']),
          (Stamp ''2022'', [Str ''80'']),
          (Name ''2023-%'', [Span ''+25 %'' ''green''])]
   \<and> pct_change (Fin 150) (Fin 100) = Fin 50"
  by code_simp

text \<open>
  C2. A raw statement with two periods gives a display statement with two value columns and
  no percentage-change column (not three value columns); its rows are in reversed order.
\<close>

theorem two_periods_display:
  "normalize_statement (Some two_period_statement) =
     Inr [(Name ''index'', [Str ''Cost'', Str ''Revenue'']),
          (Stamp ''2023'', [Str ''(50)'', Str ''150'']),
          (Stamp ''2022'', [Str ''0'', Str ''100''])]
   \<and> length (periods two_period_statement) = 2"
  by code_simp

text \<open>
  C9, as amended. In the display statement of a raw statement (distinct period labels without
  \<open>%\<close>, cells finite or absent), every percentage-change column belongs to an adjacent pair
  of periods, and each of its cells is the rendering of the percentage change of its line
  item: a span whose text is the whole-percent value with an explicit sign and \<open> %\<close>
  (\<open>+\<close> for a positive value, \<open>-\<close> for a negative one, the sign bit for a zero) and whose
  colour is green for a positive value, red for a negative value and white for zero; a
  change that overflows the float range reads \<open>+inf %\<close> in green or \<open>-inf %\<close> in red. The
  span carries the text and the colour only.
\<close>

theorem percentage_cell_rendering:
  assumes "distinct (map fst (periods raw))"
      and "\<forall>(p, vs)\<in>set (periods raw). PInf \<notin> set vs \<and> NInf \<notin> set vs"
      and "\<forall>(p, vs)\<in>set (periods raw). CHR ''%'' \<notin> set p"
  shows "\<exists>df. normalize_statement (Some raw) = Inr df
      \<and> (\<forall>l\<in>set (map fst df). CHR ''%'' \<in> set (label_text l) \<longrightarrow>
            (\<exists>i. i + 1 < length (periods raw)
               \<and> l = Name (fst (periods raw ! i) @ ''-%'')
               \<and> list_all2 signed_percent
                    (map2 (\<lambda>c p. pct_change (fillna0 c) (fillna0 p))
                       (snd (periods raw ! i)) (snd (periods raw ! (i + 1))))
                    (rev (get_column df l))))"
proof -
  let ?P = "periods raw"
  from change_columns [OF assms] obtain df where df:
    "normalize_statement (Some raw) = Inr df"
    "\<forall>l\<in>set (map fst df). CHR ''%'' \<in> set (label_text l) \<longrightarrow>
          (\<exists>i. 1 \<le> i \<and> i + 1 < length ?P
             \<and> l = Name (fst (?P ! i) @ ''-%'')
             \<and> get_column df l =
                 rev (map2 (\<lambda>c p. style_pct (Num (pct_change (fillna0 c) (fillna0 p))))
                        (snd (?P ! i)) (snd (?P ! (i + 1)))))"
    by (elim exE conjE) (rule that)
  have rendered: "list_all2 signed_percent
         (map2 (\<lambda>c p. pct_change (fillna0 c) (fillna0 p)) cs ps)
         (map2 (\<lambda>c p. style_pct (Num (pct_change (fillna0 c) (fillna0 p)))) cs ps)"
    for cs ps :: "fval list"
    by (simp add: list_all2_conv_all_nth signed_percent_style_pct)
  have "\<exists>i. i + 1 < length ?P
             \<and> l = Name (fst (?P ! i) @ ''-%'')
             \<and> list_all2 signed_percent
                  (map2 (\<lambda>c p. pct_change (fillna0 c) (fillna0 p))
                     (snd (?P ! i)) (snd (?P ! (i + 1))))
                  (rev (get_column df l))"
    if "l \<in> set (map fst df)" "CHR ''%'' \<in> set (label_text l)" for l
  proof -
    from df(2) that obtain i where i: "i + 1 < length ?P" "l = Name (fst (?P ! i) @ ''-%'')"
      "get_column df l =
         rev (map2 (\<lambda>c p. style_pct (Num (pct_change (fillna0 c) (fillna0 p))))
                (snd (?P ! i)) (snd (?P ! (i + 1))))"
      by blast
    have "list_all2 signed_percent
            (map2 (\<lambda>c p. pct_change (fillna0 c) (fillna0 p)) (snd (?P ! i)) (snd (?P ! (i + 1))))
            (rev (get_column df l))"
      unfolding i(3) rev_rev_ident by (rule rendered)
    with i(1,2) show ?thesis by blast
  qed
  then have cols: "\<forall>l\<in>set (map fst df). CHR ''%'' \<in> set (label_text l) \<longrightarrow>
            (\<exists>i. i + 1 < length ?P
               \<and> l = Name (fst (?P ! i) @ ''-%'')
               \<and> list_all2 signed_percent
                    (map2 (\<lambda>c p. pct_change (fillna0 c) (fillna0 p))
                       (snd (?P ! i)) (snd (?P ! (i + 1))))
                    (rev (get_column df l)))"
    by blast
  show ?thesis by (rule exI [of _ df]) (intro conjI df(1) cols)
qed

theorem percentage_cell_rendering_witness:
  "distinct (map fst (periods example_statement))
   \<and> list_all2 signed_percent
        [pct_change (Fin 100) (Fin 200), pct_change (Fin 0) (Fin (- 25))]
        [Span ''-50 %'' ''red'', Span ''+100 %'' ''green'']"
proof -
  let ?T = "[(Name ''index'', [Str ''Cost'', Str ''Revenue'']),
        (Stamp ''2024'', [Str ''(1,234)'', Str ''300'']),
        (Stamp ''2023'', [Str ''(50)'', Str ''150'']),
        (Stamp ''2022'', [Str ''0'', Str ''100'']),
        (Stamp ''2021'', [Str ''(25)'', Str ''200'']),
        (Name ''2023-%'', [Span ''-0 %'' ''white'', Span ''+50 %'' ''green'']),
        (Name ''2022-%'', [Span ''+100 %'' ''green'', Span ''-50 %'' ''red''])]"
  let ?P = "periods example_statement"
  have "\<exists>df. normalize_statement (Some example_statement) = Inr df
      \<and> (\<forall>l\<in>set (map fst df). CHR ''%'' \<in> set (label_text l) \<longrightarrow>
            (\<exists>i. i + 1 < length ?P
               \<and> l = Name (fst (?P ! i) @ ''-%'')
               \<and> list_all2 signed_percent
                    (map2 (\<lambda>c p. pct_change (fillna0 c) (fillna0 p))
                       (snd (?P ! i)) (snd (?P ! (i + 1))))
                    (rev (get_column df l))))"
    by (rule percentage_cell_rendering [OF example_statement_wellformed])
  then have all: "\<forall>l\<in>set (map fst ?T). CHR ''%'' \<in> set (label_text l) \<longrightarrow>
            (\<exists>i. i + 1 < length ?P
               \<and> l = Name (fst (?P ! i) @ ''-%'')
               \<and> list_all2 signed_percent
                    (map2 (\<lambda>c p. pct_change (fillna0 c) (fillna0 p))
                       (snd (?P ! i)) (snd (?P ! (i + 1))))
                    (rev (get_column ?T l)))"
    unfolding example_display by simp
  have m1: "Name ''2022-%'' \<in> set (map fst ?T)" by simp
  have m2: "CHR ''%'' \<in> set (label_text (Name ''2022-%''))" by simp
  from all [rule_format, OF m1 m2] obtain i where i: "i + 1 < length ?P"
    "Name ''2022-%'' = Name (fst (?P ! i) @ ''-%'')"
    "list_all2 signed_percent
       (map2 (\<lambda>c p. pct_change (fillna0 c) (fillna0 p)) (snd (?P ! i)) (snd (?P ! (i + 1))))
       (rev (get_column ?T (Name ''2022-%'')))"
    by (elim exE conjE) (rule that)
  from i(1) have "i = 0 \<or> i = 1 \<or> i = 2" unfolding example_statement_def by auto
  with i(2) have "i = 2" unfolding example_statement_def by auto
  with i(3) show ?thesis using example_statement_wellformed(1)
    unfolding example_statement_def by (simp add: numeral_2_eq_2 get_column_def)
qed

text \<open>
  C9 as stated fails on the numeric value: the cell rendered for 150 after 100 is the span
  with the text \<open>+50 %\<close> and the colour green, and the one for 50 after 100 the span with
  \<open>-50 %\<close> and red; neither holds a numeric value beside the text and the colour.
\<close>

theorem change_cell_is_text_and_colour:
  "style_pct (Num (pct_change (Fin 150) (Fin 100))) = Span ''+50 %'' ''green''
   \<and> style_pct (Num (pct_change (Fin 50) (Fin 100))) = Span ''-50 %'' ''red''"
  by code_simp

end
